theory Spec2Isabelle
  imports Complex_Main "HOL-Library.AList"
begin

section \<open>Data model\<close>

text \<open>
  The embedding follows \<^verbatim>\<open>scripts/parallel_search_fusion.py\<close>,
  \<^verbatim>\<open>scripts/indexing.py\<close> (\<^verbatim>\<open>reciprocal_rank_fusion\<close>) and
  \<^verbatim>\<open>scripts/partno_classifier.py\<close>.

  Scores are Python floats. The fusion code only compares them and sorts by them, and
  the RRF code adds reciprocals of small integers; they are modelled as \<^typ>\<open>real\<close>,
  which orders every float that is not a NaN the way Python does. The wall-clock
  statistics (\<^verbatim>\<open>search_stats\<close>) and the \<^verbatim>\<open>print\<close> calls influence no result
  and are left out.
\<close>

type_synonym payload = "(string \<times> string) list"

text \<open>The dataclass \<^verbatim>\<open>SearchResult\<close>.\<close>

record search_result =
  sr_id :: string
  sr_score :: real
  sr_payload :: payload
  sr_search_type :: string
  sr_qdrant_id :: "string option"
  sr_boost_factor :: real

text \<open>
  A point as the vector store returns it. \<open>pt_id\<close> stands for \<^verbatim>\<open>str(point.id)\<close>.
\<close>

record point =
  pt_id :: string
  pt_score :: real
  pt_payload :: payload


text \<open>
  Exceptions are values. The source raises no exception class of its own: what the
  embedder and the store client raise is caught as \<^verbatim>\<open>Exception\<close>. The
  constructors name the failures the specification distinguishes.
\<close>

datatype error = EmbeddingError | TimeoutError | StoreError | ZeroDivisionError

text \<open>
  The collaborators. \<open>scroll client field value limit\<close> is
  \<^verbatim>\<open>self.client.scroll(...)[0]\<close> with a filter on one keyword field;
  \<open>query_points client vector limit\<close> is \<^verbatim>\<open>self.client.query_points(...).points\<close>;
  an embedder is \<^verbatim>\<open>self.model.query_embed\<close>.
\<close>

record vector_store =
  scroll :: "string \<Rightarrow> string \<Rightarrow> int \<Rightarrow> error + point list"
  query_points :: "real list \<Rightarrow> int \<Rightarrow> error + point list"

type_synonym embedder = "string \<Rightarrow> error + real list"

section \<open>Python strings and lists\<close>

text \<open>
  Query strings are modelled as ASCII text, one \<^typ>\<open>char\<close> per code point.
  \<^verbatim>\<open>str.isspace\<close> holds for the ASCII characters 9 to 13, 28 to 31 and 32.
\<close>

definition ascii_lowercase :: string where
  "ascii_lowercase = ''abcdefghijklmnopqrstuvwxyz''"

definition ascii_uppercase :: string where
  "ascii_uppercase = ''ABCDEFGHIJKLMNOPQRSTUVWXYZ''"

definition isspace :: "char \<Rightarrow> bool" where
  "isspace c \<longleftrightarrow> (let n = (of_char c :: nat) in (9 \<le> n \<and> n \<le> 13) \<or> (28 \<le> n \<and> n \<le> 32))"

definition upper_char :: "char \<Rightarrow> char" where
  "upper_char c = (case map_of (zip ascii_lowercase ascii_uppercase) c of Some u \<Rightarrow> u | None \<Rightarrow> c)"

definition lower_char :: "char \<Rightarrow> char" where
  "lower_char c = (case map_of (zip ascii_uppercase ascii_lowercase) c of Some l \<Rightarrow> l | None \<Rightarrow> c)"

definition upper :: "string \<Rightarrow> string" where
  "upper s = map upper_char s"

definition lower :: "string \<Rightarrow> string" where
  "lower s = map lower_char s"

definition strip :: "string \<Rightarrow> string" where
  "strip s = rev (dropWhile isspace (rev (dropWhile isspace s)))"

text \<open>\<^verbatim>\<open>xs[:n]\<close>: a negative \<open>n\<close> counts from the end.\<close>

definition slice_to :: "int \<Rightarrow> 'a list \<Rightarrow> 'a list" where
  "slice_to n xs = (if 0 \<le> n then take (nat n) xs else take (length xs - nat (- n)) xs)"

text \<open>\<^verbatim>\<open>payload.get(key, default)\<close>\<close>

definition payload_get :: "payload \<Rightarrow> string \<Rightarrow> string \<Rightarrow> string" where
  "payload_get pl key dflt = (case map_of pl key of Some v \<Rightarrow> v | None \<Rightarrow> dflt)"

section \<open>Embedding cache (\<^verbatim>\<open>_get_embedding_cached\<close>)\<close>

text \<open>
  The body of the method: the \<^verbatim>\<open>try\<close> around the embedder call, and the
  \<^verbatim>\<open>except Exception\<close> that returns \<^verbatim>\<open>tuple([0.0] * 384)\<close>.
\<close>

definition embedding_body :: "embedder \<Rightarrow> string \<Rightarrow> error + real list" where
  "embedding_body model text =
     (case model text of
        Inr query_vector \<Rightarrow> Inr query_vector
      | Inl e \<Rightarrow> Inr (replicate 384 0))"

text \<open>
  \<^verbatim>\<open>@lru_cache(maxsize=2000)\<close>: the cache is a list of entries, most recently
  used first. A hit moves its entry to the front; a miss runs the body, stores what it
  returns and drops the least recently used entry beyond 2000; an exception of the body
  is not stored.
\<close>

type_synonym embedding_cache = "(string \<times> real list) list"

definition get_embedding_cached ::
  "embedder \<Rightarrow> embedding_cache \<Rightarrow> string \<Rightarrow> (error + real list) \<times> embedding_cache" where
  "get_embedding_cached model cache text =
     (case map_of cache text of
        Some v \<Rightarrow> (Inr v, (text, v) # filter (\<lambda>kv. fst kv \<noteq> text) cache)
      | None \<Rightarrow>
          (case embedding_body model text of
             Inl e \<Rightarrow> (Inl e, cache)
           | Inr v \<Rightarrow> (Inr v, take 2000 ((text, v) # cache))))"

section \<open>Exact search (\<^verbatim>\<open>exact_search_async\<close>)\<close>

definition exact_hit :: "real \<Rightarrow> string \<Rightarrow> point \<Rightarrow> search_result" where
  "exact_hit normalized_score search_type p =
     \<lparr>sr_id = payload_get (pt_payload p) ''partNumber_airgas_text'' (pt_id p),
      sr_score = normalized_score,
      sr_payload = pt_payload p,
      sr_search_type = search_type,
      sr_qdrant_id = Some (pt_id p),
      sr_boost_factor = 1\<rparr>"

definition search_fields :: "(string \<times> real \<times> string) list" where
  "search_fields =
     [(''partNumber_airgas_text'', 1, ''exact''),
      (''manufacturerPartNumber_text'', 9 / 10, ''exact_mfg'')]"

text \<open>
  The loop over \<open>search_fields\<close>. Beside the results it returns the lookups it issued,
  each as (field, value, limit), in order. An exception of a lookup is the
  \<^verbatim>\<open>except Exception as field_error: continue\<close>.
\<close>

type_synonym lookup = "string \<times> string \<times> int"

fun exact_fields_loop ::
  "vector_store \<Rightarrow> string \<Rightarrow> int \<Rightarrow> (string \<times> real \<times> string) list \<Rightarrow>
   search_result list \<times> lookup list \<Rightarrow> search_result list \<times> lookup list" where
  "exact_fields_loop client clean_query count [] (results, calls) = (results, calls)"
| "exact_fields_loop client clean_query count
       ((field_name, normalized_score, search_type) # rest) (results, calls) =
     (let calls' = calls @ [(field_name, clean_query, min count 10)] in
      case scroll client field_name clean_query (min count 10) of
        Inl field_error \<Rightarrow> exact_fields_loop client clean_query count rest (results, calls')
      | Inr points \<Rightarrow>
          let results' = results @ map (exact_hit normalized_score search_type) points in
          if results' \<noteq> [] \<and> search_type = ''exact'' then (results', calls')
          else exact_fields_loop client clean_query count rest (results', calls'))"

definition exact_search_async ::
  "vector_store \<Rightarrow> string \<Rightarrow> int \<Rightarrow> search_result list \<times> lookup list" where
  "exact_search_async client query count =
     (let clean_query = upper (strip query)
      in exact_fields_loop client clean_query count search_fields ([], []))"

section \<open>Vector search (\<^verbatim>\<open>vector_search_async\<close>)\<close>

definition vector_hit :: "point \<Rightarrow> search_result" where
  "vector_hit p =
     \<lparr>sr_id = payload_get (pt_payload p) ''partNumber_airgas_text'' (pt_id p),
      sr_score = pt_score p,
      sr_payload = pt_payload p,
      sr_search_type = ''vector'',
      sr_qdrant_id = Some (pt_id p),
      sr_boost_factor = 1\<rparr>"

text \<open>
  The threshold \<^verbatim>\<open>0.4\<close> is the double nearest to 4/10, which is the least double
  that is at least 4/10; so on doubles \<^verbatim>\<open>point.score >= 0.4\<close> holds exactly when
  the score is at least 4/10.

  Every exception inside the \<^verbatim>\<open>try\<close> ends in \<^verbatim>\<open>except Exception\<close>, which
  prints and falls through to \<^verbatim>\<open>return results\<close>; the two calls that can raise
  come before the first \<^verbatim>\<open>append\<close>, so \<open>results\<close> is then empty.
\<close>

definition vector_search_async ::
  "embedder \<Rightarrow> embedding_cache \<Rightarrow> vector_store \<Rightarrow> string \<Rightarrow> int \<Rightarrow>
   search_result list \<times> embedding_cache" where
  "vector_search_async model cache client query count =
     (case get_embedding_cached model cache query of
        (Inl e, cache') \<Rightarrow> ([], cache')
      | (Inr query_vector, cache') \<Rightarrow>
          (case query_points client query_vector count of
             Inl e \<Rightarrow> ([], cache')
           | Inr points \<Rightarrow>
               (map vector_hit (filter (\<lambda>p. pt_score p \<ge> 4 / 10) points), cache')))"

section \<open>Simple fusion (\<^verbatim>\<open>SimplifiedParallelSearch.simple_fusion\<close>)\<close>

text \<open>
  \<^verbatim>\<open>simple_fusion\<close> mutates the \<^verbatim>\<open>search_type\<close> of the objects it is given, and
  the same object is reachable from \<^verbatim>\<open>seen_ids\<close> and from \<^verbatim>\<open>fused_results\<close>.
  The model therefore keeps the objects in a store and lets the lists and the dictionary
  hold references.
\<close>

type_synonym ref = nat
type_synonym store = "ref \<Rightarrow> search_result"

record fusion_state =
  objs :: store
  seen_ids :: "string \<rightharpoonup> ref"
  fused_results :: "ref list"

text \<open>
  \<^verbatim>\<open>for i, res in enumerate(fused_results): if res.id == result_id: fused_results[i] = result; break\<close>
\<close>

fun replace_first :: "store \<Rightarrow> string \<Rightarrow> ref \<Rightarrow> ref list \<Rightarrow> ref list" where
  "replace_first h result_id result [] = []"
| "replace_first h result_id result (res # rest) =
     (if sr_id (h res) = result_id then result # rest
      else res # replace_first h result_id result rest)"

text \<open>One iteration of \<^verbatim>\<open>for result in all_results\<close>.\<close>

definition fusion_step :: "fusion_state \<Rightarrow> ref \<Rightarrow> fusion_state" where
  "fusion_step s result =
     (let h = objs s; result_id = sr_id (h result) in
      case seen_ids s result_id of
        None \<Rightarrow>
          s\<lparr>seen_ids := (seen_ids s)(result_id \<mapsto> result),
            fused_results := fused_results s @ [result]\<rparr>
      | Some existing \<Rightarrow>
          if sr_score (h result) > sr_score (h existing) then
            let h' = h(result := (h result)\<lparr>sr_search_type :=
                         sr_search_type (h existing) @ ''+'' @ sr_search_type (h result)\<rparr>)
            in s\<lparr>objs := h',
                 seen_ids := (seen_ids s)(result_id \<mapsto> result),
                 fused_results := replace_first h' result_id result (fused_results s)\<rparr>
          else
            let h' = h(existing := (h existing)\<lparr>sr_search_type :=
                         sr_search_type (h existing) @ ''+'' @ sr_search_type (h result)\<rparr>)
            in s\<lparr>objs := h'\<rparr>)"

text \<open>
  \<^verbatim>\<open>fused_results.sort(key=lambda x: x.score, reverse=True)\<close>: Python's sort is
  stable, also with \<^verbatim>\<open>reverse=True\<close>; \<^const>\<open>sort_key\<close> is stable, so sorting by the
  negated score gives the same list.
\<close>

definition sort_by_score_desc :: "store \<Rightarrow> ref list \<Rightarrow> ref list" where
  "sort_by_score_desc h rs = sort_key (\<lambda>r. - sr_score (h r)) rs"

definition fusion_loop :: "store \<Rightarrow> ref list \<Rightarrow> fusion_state" where
  "fusion_loop h all_results =
     foldl fusion_step \<lparr>objs = h, seen_ids = Map.empty, fused_results = []\<rparr> all_results"

text \<open>
  The result is the store after the mutations and the sorted list of references;
  \<open>fused_hits\<close> reads the hits the caller sees.
\<close>

definition simple_fusion :: "store \<Rightarrow> ref list \<Rightarrow> ref list \<Rightarrow> store \<times> ref list" where
  "simple_fusion h exact_results vector_results =
     (let all_results = exact_results @ vector_results;
          s = fusion_loop h all_results
      in (objs s, sort_by_score_desc (objs s) (fused_results s)))"

definition fused_hits :: "store \<times> ref list \<Rightarrow> search_result list" where
  "fused_hits out = map (fst out) (snd out)"


section \<open>Orchestrator (\<^verbatim>\<open>parallel_search\<close>)\<close>

text \<open>
  Neither coroutine awaits anything, so \<^verbatim>\<open>asyncio.gather\<close> runs the exact search
  to its end and then the vector search. The hits the two searches build are fresh
  objects: they are placed in the store at the references \<open>0, 1, \<dots>\<close>, exact hits
  first. The result type leaves room for an exception
  leaving \<^verbatim>\<open>parallel_search\<close>; the function has no \<^verbatim>\<open>raise\<close> and no deadline
  of its own.
\<close>

definition parallel_search ::
  "embedder \<Rightarrow> embedding_cache \<Rightarrow> vector_store \<Rightarrow> string \<Rightarrow> int \<Rightarrow>
   (error + search_result list) \<times> embedding_cache" where
  "parallel_search model cache client query count =
     (let (exact_results, calls) = exact_search_async client query count;
          (vector_results, cache') = vector_search_async model cache client query (count * 2);
          h = (\<lambda>r. (exact_results @ vector_results) ! r);
          exact_refs = [0 ..< length exact_results];
          vector_refs = [length exact_results ..< length exact_results + length vector_results];
          fused_results = simple_fusion h exact_refs vector_refs
      in (Inr (slice_to count (fused_hits fused_results)), cache'))"

section \<open>Reciprocal rank fusion (\<^verbatim>\<open>reciprocal_rank_fusion\<close>)\<close>

text \<open>
  An entry of the dictionary \<^verbatim>\<open>fused_scores\<close>. The dictionary keeps its keys in
  insertion order, which the stable sort at the end observes, so it is an association
  list: \<^const>\<open>AList.update\<close> replaces the value of a key in place and appends a new
  key at the end, as an assignment to a Python dictionary does.
\<close>

record rrf_entry =
  rrf_score :: real
  dense_rank :: nat
  sparse_rank :: nat
  dense_score :: real
  sparse_score :: real
  entry_point :: point

type_synonym fused_scores = "(string \<times> rrf_entry) list"

text \<open>
  One iteration of \<^verbatim>\<open>for rank, point in enumerate(dense_results.points, 1)\<close>.
  \<^verbatim>\<open>1.0 / (k + rank)\<close> raises \<^verbatim>\<open>ZeroDivisionError\<close> when \<open>k + rank = 0\<close>.
\<close>

definition dense_step :: "real \<Rightarrow> nat \<times> point \<Rightarrow> fused_scores \<Rightarrow> error + fused_scores" where
  "dense_step k rp fused =
     (let rank = fst rp; p = snd rp; doc_id = pt_id p in
      if k + real rank = 0 then Inl ZeroDivisionError
      else
        let rrf = 1 / (k + real rank);
            fused = (if map_of fused doc_id = None
                     then AList.update doc_id
                            \<lparr>rrf_score = 0, dense_rank = rank, sparse_rank = 0,
                             dense_score = pt_score p, sparse_score = 0, entry_point = p\<rparr> fused
                     else fused)
        in Inr (AList.map_entry doc_id (\<lambda>e. e\<lparr>rrf_score := rrf_score e + rrf\<rparr>) fused))"

text \<open>One iteration of \<^verbatim>\<open>for rank, point in enumerate(sparse_results.points, 1)\<close>.\<close>

definition sparse_step :: "real \<Rightarrow> nat \<times> point \<Rightarrow> fused_scores \<Rightarrow> error + fused_scores" where
  "sparse_step k rp fused =
     (let rank = fst rp; p = snd rp; doc_id = pt_id p in
      if k + real rank = 0 then Inl ZeroDivisionError
      else
        let rrf = 1 / (k + real rank);
            fused = (if map_of fused doc_id = None
                     then AList.update doc_id
                            \<lparr>rrf_score = 0, dense_rank = 0, sparse_rank = rank,
                             dense_score = 0, sparse_score = pt_score p, entry_point = p\<rparr> fused
                     else AList.map_entry doc_id
                            (\<lambda>e. e\<lparr>sparse_rank := rank, sparse_score := pt_score p\<rparr>) fused)
        in Inr (AList.map_entry doc_id (\<lambda>e. e\<lparr>rrf_score := rrf_score e + rrf\<rparr>) fused))"

text \<open>A loop whose body may raise: the first exception ends it.\<close>

fun rrf_loop ::
  "(nat \<times> point \<Rightarrow> fused_scores \<Rightarrow> error + fused_scores) \<Rightarrow> (nat \<times> point) list \<Rightarrow>
   fused_scores \<Rightarrow> error + fused_scores" where
  "rrf_loop step [] fused = Inr fused"
| "rrf_loop step (rp # rest) fused =
     (case step rp fused of Inl e \<Rightarrow> Inl e | Inr fused' \<Rightarrow> rrf_loop step rest fused')"

text \<open>The dictionary after both loops.\<close>

definition rrf_fused_scores :: "point list \<Rightarrow> point list \<Rightarrow> real \<Rightarrow> error + fused_scores" where
  "rrf_fused_scores dense_results sparse_results k =
     (case rrf_loop (dense_step k) (enumerate 1 dense_results) [] of
        Inl e \<Rightarrow> Inl e
      | Inr fused \<Rightarrow> rrf_loop (sparse_step k) (enumerate 1 sparse_results) fused)"

text \<open>
  \<^verbatim>\<open>sorted(fused_scores.values(), key=lambda x: x['rrf_score'], reverse=True)\<close>,
  the cut to \<open>limit\<close>, and \<^verbatim>\<open>point.score = item['rrf_score']\<close>.
\<close>

definition reciprocal_rank_fusion ::
  "point list \<Rightarrow> point list \<Rightarrow> real \<Rightarrow> int \<Rightarrow> error + point list" where
  "reciprocal_rank_fusion dense_results sparse_results k limit =
     (case rrf_fused_scores dense_results sparse_results k of
        Inl e \<Rightarrow> Inl e
      | Inr fused \<Rightarrow>
          let sorted_results = sort_key (\<lambda>item. - rrf_score item) (map snd fused)
          in Inr (map (\<lambda>item. (entry_point item)\<lparr>pt_score := rrf_score item\<rparr>)
                    (slice_to limit sorted_results)))"

text \<open>
  What the ranks of the id \<open>i\<close> in one list add up to, and the score the dictionary
  holds for an id (zero when the id is absent).
\<close>

definition contrib :: "real \<Rightarrow> (nat \<times> point) list \<Rightarrow> string \<Rightarrow> real" where
  "contrib k rps i = (\<Sum>rp\<leftarrow>rps. if pt_id (snd rp) = i then 1 / (k + real (fst rp)) else 0)"

definition score_of :: "fused_scores \<Rightarrow> string \<Rightarrow> real" where
  "score_of fused i = (case map_of fused i of None \<Rightarrow> 0 | Some e \<Rightarrow> rrf_score e)"

text \<open>Every key is the id of the point its entry holds, and no key occurs twice.\<close>

definition keyed :: "fused_scores \<Rightarrow> bool" where
  "keyed fused \<longleftrightarrow>
     distinct (map fst fused) \<and> (\<forall>j e. map_of fused j = Some e \<longrightarrow> pt_id (entry_point e) = j)"

text \<open>What one iteration of either loop does to the scores and the keys.\<close>

definition good_step ::
  "real \<Rightarrow> (nat \<times> point \<Rightarrow> fused_scores \<Rightarrow> error + fused_scores) \<Rightarrow> bool" where
  "good_step k step \<longleftrightarrow>
     (\<forall>rp fused. k + real (fst rp) \<noteq> 0 \<longrightarrow>
        (\<exists>fused'. step rp fused = Inr fused' \<and>
           (\<forall>i. score_of fused' i =
                  score_of fused i + (if pt_id (snd rp) = i then 1 / (k + real (fst rp)) else 0)) \<and>
           (keyed fused \<longrightarrow> keyed fused') \<and>
           fst ` set fused' = insert (pt_id (snd rp)) (fst ` set fused)))"

section \<open>Regular expressions (Python's \<^verbatim>\<open>re\<close>, as far as the classifier uses it)\<close>

text \<open>
  A pattern is a term of \<open>regex\<close>; \<open>ends r ic s i\<close> lists every position at which a
  match of \<open>r\<close> that starts at position \<open>i\<close> of \<open>s\<close> can end (\<open>ic\<close> is
  \<^verbatim>\<open>re.IGNORECASE\<close>). \<^verbatim>\<open>re.search\<close> and \<^verbatim>\<open>re.match\<close> are used as truth
  values only, and the patterns have no backreference or lookaround, so a match is found
  exactly if one exists.
\<close>

datatype char_class =
    Range char char   \<comment> \<open>\<^verbatim>\<open>a-z\<close> inside brackets\<close>
  | Single char
  | Whitespace        \<comment> \<open>\<^verbatim>\<open>\s\<close>\<close>

datatype regex =
    Class "char_class list"       \<comment> \<open>\<^verbatim>\<open>[...]\<close>\<close>
  | Lit string                    \<comment> \<open>literal text\<close>
  | Eps                           \<comment> \<open>the empty pattern\<close>
  | Cat regex regex
  | Alt regex regex               \<comment> \<open>\<^verbatim>\<open>|\<close>\<close>
  | Rep nat "nat option" regex    \<comment> \<open>\<^verbatim>\<open>{m,n}\<close>; \<^verbatim>\<open>{m,}\<close> and \<^verbatim>\<open>+\<close> have no upper bound\<close>
  | Bol                           \<comment> \<open>\<^verbatim>\<open>^\<close>\<close>
  | Eol                           \<comment> \<open>\<^verbatim>\<open>$\<close>\<close>
  | WordB                         \<comment> \<open>\<^verbatim>\<open>\b\<close>\<close>

definition seq :: "regex list \<Rightarrow> regex" where
  "seq rs = foldr Cat rs Eps"

fun alts :: "regex list \<Rightarrow> regex" where
  "alts [] = Class []"
| "alts [r] = r"
| "alts (r # rs) = Alt r (alts rs)"

definition many1 :: "regex \<Rightarrow> regex" where   \<comment> \<open>\<^verbatim>\<open>+\<close>\<close>
  "many1 r = Rep 1 None r"

fun class_has :: "char_class \<Rightarrow> char \<Rightarrow> bool" where
  "class_has (Range lo hi) c \<longleftrightarrow>
     (of_char lo :: nat) \<le> of_char c \<and> (of_char c :: nat) \<le> of_char hi"
| "class_has (Single x) c \<longleftrightarrow> c = x"
| "class_has Whitespace c \<longleftrightarrow> isspace c"

definition in_class :: "bool \<Rightarrow> char_class list \<Rightarrow> char \<Rightarrow> bool" where
  "in_class ic cs c \<longleftrightarrow>
     list_ex (\<lambda>cl. class_has cl c \<or>
                   (ic \<and> (class_has cl (lower_char c) \<or> class_has cl (upper_char c)))) cs"

definition lit_at :: "bool \<Rightarrow> string \<Rightarrow> string \<Rightarrow> nat \<Rightarrow> bool" where
  "lit_at ic w s i \<longleftrightarrow>
     (if ic then lower (take (length w) (drop i s)) = lower w
      else take (length w) (drop i s) = w)"

text \<open>\<^verbatim>\<open>\w\<close> on ASCII text: letters, digits and the underscore.\<close>

definition is_word_char :: "char \<Rightarrow> bool" where
  "is_word_char c \<longleftrightarrow>
     class_has (Range CHR ''a'' CHR ''z'') c \<or> class_has (Range CHR ''A'' CHR ''Z'') c \<or>
     class_has (Range CHR ''0'' CHR ''9'') c \<or> c = CHR ''_''"

definition word_at :: "string \<Rightarrow> nat \<Rightarrow> bool" where
  "word_at s i \<longleftrightarrow> i < length s \<and> is_word_char (s ! i)"

fun iterate_ends :: "(nat \<Rightarrow> nat list) \<Rightarrow> nat \<Rightarrow> nat list \<Rightarrow> nat list" where
  "iterate_ends step 0 ps = ps"
| "iterate_ends step (Suc n) ps = iterate_ends step n (remdups (concat (map step ps)))"

text \<open>
  \<open>closure_ends step fuel frontier acc\<close> adds to \<open>acc\<close> the positions that up to \<open>fuel\<close>
  further repetitions reach from \<open>frontier\<close>; it stops as soon as a round reaches nothing
  new.
\<close>

fun closure_ends :: "(nat \<Rightarrow> nat list) \<Rightarrow> nat \<Rightarrow> nat list \<Rightarrow> nat list \<Rightarrow> nat list" where
  "closure_ends step 0 frontier acc = acc"
| "closure_ends step (Suc n) frontier acc =
     (let new = filter (\<lambda>p. p \<notin> set acc) (remdups (concat (map step frontier)))
      in if new = [] then acc else closure_ends step n new (acc @ new))"

text \<open>
  The ends of \<open>m\<close> to \<open>n\<close> repetitions: the ends of exactly \<open>m\<close>, then up to \<open>n - m\<close>
  more. Without an upper bound, \<open>len\<close> more rounds reach every end there is, since every
  round that goes on adds a position of the string.
\<close>

definition rep_ends :: "(nat \<Rightarrow> nat list) \<Rightarrow> nat \<Rightarrow> nat option \<Rightarrow> nat \<Rightarrow> nat \<Rightarrow> nat list" where
  "rep_ends step m n len i =
     (let base = iterate_ends step m [i]
      in closure_ends step (case n of None \<Rightarrow> len | Some n' \<Rightarrow> n' - m) base base)"

primrec ends :: "regex \<Rightarrow> bool \<Rightarrow> string \<Rightarrow> nat \<Rightarrow> nat list" where
  "ends (Class cs) = (\<lambda>ic s i. if i < length s \<and> in_class ic cs (s ! i) then [Suc i] else [])"
| "ends (Lit w) = (\<lambda>ic s i. if lit_at ic w s i then [i + length w] else [])"
| "ends Eps = (\<lambda>ic s i. [i])"
| "ends (Cat r1 r2) = (\<lambda>ic s i. remdups (concat (map (ends r2 ic s) (ends r1 ic s i))))"
| "ends (Alt r1 r2) = (\<lambda>ic s i. remdups (ends r1 ic s i @ ends r2 ic s i))"
| "ends (Rep m n r) = (\<lambda>ic s i. rep_ends (ends r ic s) m n (length s) i)"
| "ends Bol = (\<lambda>ic s i. if i = 0 then [i] else [])"
| "ends Eol = (\<lambda>ic s i.
     if i = length s \<or> (Suc i = length s \<and> s ! i = CHR 0x0A) then [i] else [])"
| "ends WordB = (\<lambda>ic s i.
     if (0 < i \<and> word_at s (i - 1)) \<noteq> word_at s i then [i] else [])"

text \<open>\<^verbatim>\<open>re.match(r, s)\<close> and \<^verbatim>\<open>re.search(r, s)\<close>, as truth values.\<close>

definition re_match :: "regex \<Rightarrow> bool \<Rightarrow> string \<Rightarrow> bool" where
  "re_match r ic s \<longleftrightarrow> ends r ic s 0 \<noteq> []"

definition re_search :: "regex \<Rightarrow> bool \<Rightarrow> string \<Rightarrow> bool" where
  "re_search r ic s \<longleftrightarrow> list_ex (\<lambda>i. ends r ic s i \<noteq> []) [0 ..< Suc (length s)]"

section \<open>Part number classifier (\<^verbatim>\<open>PartNumberClassifier\<close>)\<close>

text \<open>\<^verbatim>\<open>str.split()\<close>, \<^verbatim>\<open>str.startswith\<close> and the substring test \<^verbatim>\<open>t in s\<close>.\<close>

fun split_from :: "string \<Rightarrow> string \<Rightarrow> string list" where
  "split_from cur [] = (if cur = [] then [] else [cur])"
| "split_from cur (c # cs) =
     (if isspace c then (if cur = [] then split_from [] cs else cur # split_from [] cs)
      else split_from (cur @ [c]) cs)"

definition split :: "string \<Rightarrow> string list" where
  "split s = split_from [] s"

definition startswith :: "string \<Rightarrow> string \<Rightarrow> bool" where
  "startswith s p \<longleftrightarrow> take (length p) s = p"

definition contains :: "string \<Rightarrow> string \<Rightarrow> bool" where
  "contains t s \<longleftrightarrow> list_ex (\<lambda>i. startswith (drop i s) t) [0 ..< Suc (length s)]"

text \<open>The sets of \<^verbatim>\<open>__init__\<close>; they are only searched with \<^verbatim>\<open>any\<close>.\<close>

definition common_prefixes :: "string list" where
  "common_prefixes =
     [''RAD'', ''PIP'', ''MIL'', ''LIN'', ''NOR'', ''MSA'', ''ESA'', ''HYP'',
      ''KOI'', ''WBU'', ''CBR'', ''HOU'', ''BOS'', ''VIC'', ''AMS'', ''E57'',
      ''NI'']"

definition consumer_products :: "string list" where
  "consumer_products = [''iphone'', ''macbook'', ''surface'', ''galaxy'', ''kindle'', ''gtx'']"

definition search_terms :: "string list" where
  "search_terms =
     [''how'', ''what'', ''where'', ''when'', ''why'', ''find'', ''best'', ''good'',
      ''better'', ''top'', ''review'', ''price'', ''vs'', ''versus'', ''buy'', ''compare'']"

definition sentence_words :: "string list" where
  "sentence_words =
     [''a'', ''an'', ''the'', ''of'', ''in'', ''for'', ''to'', ''with'', ''by'',
      ''is'', ''are'', ''this'', ''that'', ''these'', ''those'']"

definition doc_ref_terms :: "string list" where
  "doc_ref_terms = [''page'', ''table'', ''figure'', ''section'', ''chapter'', ''version'']"

text \<open>The patterns, in the order of their first use.\<close>

definition digits :: char_class where "digits = Range CHR ''0'' CHR ''9''"
definition uppers :: char_class where "uppers = Range CHR ''A'' CHR ''Z''"
definition lowers :: char_class where "lowers = Range CHR ''a'' CHR ''z''"

definition re_digit :: regex where   \<comment> \<open>\<^verbatim>\<open>[0-9]\<close>\<close>
  "re_digit = Class [digits]"

definition re_doc_ref_start :: regex where
  \<comment> \<open>\<^verbatim>\<open>^(page|table|figure|section|chapter|room)\s+[0-9]\<close>\<close>
  "re_doc_ref_start =
     seq [Bol,
          alts [Lit ''page'', Lit ''table'', Lit ''figure'', Lit ''section'', Lit ''chapter'',
                Lit ''room''],
          many1 (Class [Whitespace]), Class [digits]]"

definition re_letter :: regex where   \<comment> \<open>\<^verbatim>\<open>[A-Za-z]\<close>\<close>
  "re_letter = Class [uppers, lowers]"

definition re_separator :: regex where   \<comment> \<open>\<^verbatim>\<open>[\-\./]\<close>\<close>
  "re_separator = Class [Single CHR ''-'', Single CHR ''.'', Single CHR ''/'']"

definition re_letters_digits :: regex where   \<comment> \<open>\<^verbatim>\<open>^[A-Za-z]{1,3}[0-9]{2,}\<close>\<close>
  "re_letters_digits =
     seq [Bol, Rep 1 (Some 3) (Class [uppers, lowers]), Rep 2 None (Class [digits])]"

definition re_starts_with_letter :: regex where   \<comment> \<open>\<^verbatim>\<open>^[A-Za-z]\<close>\<close>
  "re_starts_with_letter = seq [Bol, Class [uppers, lowers]]"

definition re_label :: regex where
  \<comment> \<open>\<^verbatim>\<open>^(p/n:|part|model|item|no\.)[\s:]+[a-z0-9]\<close>\<close>
  "re_label =
     seq [Bol,
          alts [Lit ''p/n:'', Lit ''part'', Lit ''model'', Lit ''item'', Lit ''no.''],
          many1 (Class [Whitespace, Single CHR '':'']), Class [lowers, digits]]"

definition re_repeating :: regex where   \<comment> \<open>\<^verbatim>\<open>([A-Za-z]+[0-9]+){2,}\<close>\<close>
  "re_repeating =
     Rep 2 None (seq [many1 (Class [uppers, lowers]), many1 (Class [digits])])"

definition re_three_digits :: regex where   \<comment> \<open>\<^verbatim>\<open>[0-9]{3,}\<close>\<close>
  "re_three_digits = Rep 3 None (Class [digits])"

definition re_suffix :: regex where   \<comment> \<open>\<^verbatim>\<open>[A-Z0-9]+(XL|AL|/[SML]|EU)$\<close>\<close>
  "re_suffix =
     seq [many1 (Class [uppers, digits]),
          alts [Lit ''XL'', Lit ''AL'',
                seq [Lit ''/'', Class [Single CHR ''S'', Single CHR ''M'', Single CHR ''L'']],
                Lit ''EU''],
          Eol]"

definition re_whole_word :: "string \<Rightarrow> regex" where   \<comment> \<open>\<^verbatim>\<open>rf'\b{term}\b'\<close>\<close>
  "re_whole_word term = seq [WordB, Lit term, WordB]"

text \<open>
  \<^verbatim>\<open>is_part_number\<close>. Each \<^verbatim>\<open>if\<close> of the source that updates \<^verbatim>\<open>score\<close> is one
  rebinding of \<open>score\<close>.
\<close>

definition is_part_number :: "string \<Rightarrow> bool" where
  "is_part_number query =
     (if query = [] \<or> strip query = [] then False
      else
        let cleaned = strip query;
            words = split cleaned
        in
        if \<not> re_search re_digit False cleaned then False
        else if length cleaned < 4 then False
        else if length words > 2 \<and> list_ex (\<lambda>term. contains term (lower cleaned)) search_terms
          then False
        else if re_match re_doc_ref_start True cleaned then False
        else
          let score = (0::int);
              score = (if re_search re_letter False cleaned \<and> re_search re_digit False cleaned
                       then score + 3 else score);
              score = (if 5 \<le> length cleaned \<and> length cleaned \<le> 16 then score + 2
                       else if 16 < length cleaned \<and> length cleaned \<le> 20 then score + 1
                       else score);
              score = (if re_search re_separator False cleaned then score + 2 else score);
              score = (if list_ex (\<lambda>prefix. startswith (upper cleaned) prefix) common_prefixes
                       then score + 3 else score);
              score = (if re_match re_letters_digits False cleaned then score + 2 else score);
              score = (if re_match re_starts_with_letter False cleaned then score + 1 else score);
              score = (if re_match re_label True cleaned then score + 2 else score);
              score = (if re_search re_repeating False cleaned then score + 2 else score);
              score = (if re_search re_three_digits False cleaned then score + 1 else score);
              score = (if re_search re_suffix True cleaned then score + 1 else score);
              score = (if list_ex (\<lambda>term. re_search (re_whole_word term) False (lower cleaned))
                            search_terms
                       then score - 4 else score);
              score = (if length words \<ge> 4 then score - 4
                       else if length words = 3 then score - 2
                       else score);
              score = (if list_ex (\<lambda>word. re_search (re_whole_word word) False (lower cleaned))
                            sentence_words
                       then score - 3 else score);
              score = (if list_ex (\<lambda>prod. re_search (re_whole_word prod) False (lower cleaned))
                            consumer_products
                       then score - 3 else score);
              score = (if list_ex (\<lambda>term. re_search (re_whole_word term) False (lower cleaned))
                            doc_ref_terms
                       then score - 3 else score)
          in score \<ge> 4)"

text \<open>
  The dictionary \<^verbatim>\<open>explain_classification\<close> returns: the early rejections have the
  keys \<^verbatim>\<open>is_part_number\<close> and \<^verbatim>\<open>explanation\<close> (a string) only; the scored
  result has all five keys, and its explanation is a list.
\<close>

record classification =
  cl_is_part_number :: bool
  cl_explanation :: "string + string list"
  cl_score :: "int option"
  cl_decision :: "string option"
  cl_threshold :: "string option"

definition rejected :: "string \<Rightarrow> classification" where
  "rejected why =
     \<lparr>cl_is_part_number = False, cl_explanation = Inl why, cl_score = None,
      cl_decision = None, cl_threshold = None\<rparr>"

text \<open>
  \<^verbatim>\<open>explain_classification\<close>. Each \<^verbatim>\<open>if\<close> of the source that updates
  \<^verbatim>\<open>score\<close> and appends to \<^verbatim>\<open>explanation\<close> is one rebinding of the pair.
\<close>

definition explain_classification :: "string \<Rightarrow> classification" where
  "explain_classification query =
     (if query = [] \<or> strip query = [] then rejected ''Empty query''
      else
        let cleaned = strip query;
            words = split cleaned
        in
        if \<not> re_search re_digit False cleaned then rejected ''Rejected: Contains no digits''
        else if length cleaned < 4 then rejected ''Rejected: Too short (< 4 characters)''
        else if length words > 2 \<and> list_ex (\<lambda>term. contains term (lower cleaned)) search_terms
          then rejected ''Rejected: Multi-word query with search terms''
        else if re_match re_doc_ref_start True cleaned
          then rejected ''Rejected: Starts with document reference term''
        else
          let (score, explanation) = ((0::int), ([] :: string list));
              (score, explanation) =
                (if re_search re_letter False cleaned \<and> re_search re_digit False cleaned
                 then (score + 3, explanation @ [''+3: Contains both letters and numbers''])
                 else (score, explanation));
              (score, explanation) =
                (if 5 \<le> length cleaned \<and> length cleaned \<le> 16
                 then (score + 2,
                       explanation @ [''+2: Length is in typical part number range (5-16)''])
                 else if 16 < length cleaned \<and> length cleaned \<le> 20
                 then (score + 1,
                       explanation @ [''+1: Length is in acceptable part number range (17-20)''])
                 else (score, explanation));
              (score, explanation) =
                (if re_search re_separator False cleaned
                 then (score + 2, explanation @ [''+2: Contains a dash, dot or specific separator''])
                 else (score, explanation));
              (score, explanation) =
                (if list_ex (\<lambda>prefix. startswith (upper cleaned) prefix) common_prefixes
                 then (score + 3, explanation @ [''+3: Starts with a common part number prefix''])
                 else (score, explanation));
              (score, explanation) =
                (if re_match re_letters_digits False cleaned
                 then (score + 2, explanation @
                   [''+2: Has a typical part number pattern structure (letters then numbers)''])
                 else (score, explanation));
              (score, explanation) =
                (if re_match re_starts_with_letter False cleaned
                 then (score + 1, explanation @ [''+1: Starts with letters''])
                 else (score, explanation));
              (score, explanation) =
                (if re_match re_label True cleaned
                 then (score + 2, explanation @ [''+2: Begins with specific part number prefix''])
                 else (score, explanation));
              (score, explanation) =
                (if re_search re_repeating False cleaned
                 then (score + 2, explanation @ [''+2: Has repeating alpha-numeric patterns''])
                 else (score, explanation));
              (score, explanation) =
                (if re_search re_three_digits False cleaned
                 then (score + 1, explanation @ [''+1: Contains numbers with 3+ digits''])
                 else (score, explanation));
              (score, explanation) =
                (if re_search re_suffix True cleaned
                 then (score + 1, explanation @ [''+1: Has a specific suffix (XL, AL, etc.)''])
                 else (score, explanation));
              (score, explanation) =
                (if list_ex (\<lambda>term. re_search (re_whole_word term) False (lower cleaned))
                      search_terms
                 then (score - 4, explanation @ [''-4: Contains typical search terms''])
                 else (score, explanation));
              (score, explanation) =
                (if length words \<ge> 4
                 then (score - 4, explanation @ [''-4: Has 4+ words separated by spaces''])
                 else if length words = 3
                 then (score - 2, explanation @ [''-2: Has 3 words separated by spaces''])
                 else (score, explanation));
              (score, explanation) =
                (if list_ex (\<lambda>word. re_search (re_whole_word word) False (lower cleaned))
                      sentence_words
                 then (score - 3, explanation @ [''-3: Contains words that look like a sentence''])
                 else (score, explanation));
              (score, explanation) =
                (if list_ex (\<lambda>prod. re_search (re_whole_word prod) False (lower cleaned))
                      consumer_products
                 then (score - 3, explanation @ [''-3: Contains a consumer product name''])
                 else (score, explanation));
              (score, explanation) =
                (if list_ex (\<lambda>term. re_search (re_whole_word term) False (lower cleaned))
                      doc_ref_terms
                 then (score - 3, explanation @ [''-3: Contains common document references''])
                 else (score, explanation));
              is_part = (score \<ge> 4)
          in \<lparr>cl_is_part_number = is_part,
              cl_explanation = Inr explanation,
              cl_score = Some score,
              cl_decision = Some (if is_part then ''IS A PART NUMBER'' else ''IS NOT A PART NUMBER''),
              cl_threshold = Some ''Threshold: 4''\<rparr>)"

section \<open>Example collaborators\<close>

text \<open>
  A small store for the scenario of the catalogue number \<^verbatim>\<open>HYP220479\<close>: the
  primary field matches one point, and the dense index returns that point and two others.
\<close>

definition example_point :: "string \<Rightarrow> real \<Rightarrow> string \<Rightarrow> point" where
  "example_point i s part_number =
     \<lparr>pt_id = i, pt_score = s, pt_payload = [(''partNumber_airgas_text'', part_number)]\<rparr>"

definition example_points :: "point list" where
  "example_points =
     [example_point ''7'' (7 / 10) ''HYP220479'',
      example_point ''8'' (41 / 100) ''HYP220480'',
      example_point ''9'' (39 / 100) ''HYP220481'']"

definition example_sparse :: "point list" where
  "example_sparse =
     [example_point ''8'' 3 ''HYP220480'',
      example_point ''5'' 2 ''HYP220477'']"

definition example_client :: vector_store where
  "example_client =
     \<lparr>scroll = (\<lambda>field v l.
        if field = ''partNumber_airgas_text'' \<and> v = ''HYP220479''
        then Inr [example_point ''7'' 0 ''HYP220479''] else Inr []),
      query_points = (\<lambda>vec l. Inr example_points)\<rparr>"


definition example_model :: embedder where
  "example_model text = Inr [1, 0]"

definition failing_model :: embedder where
  "failing_model text = Inl EmbeddingError"

definition example_hit :: "string \<Rightarrow> real \<Rightarrow> string \<Rightarrow> search_result" where
  "example_hit i s ty =
     \<lparr>sr_id = i, sr_score = s, sr_payload = [], sr_search_type = ty,
      sr_qdrant_id = None, sr_boost_factor = 1\<rparr>"

text \<open>Object 0 is an exact hit; objects 1 and 2 are vector hits, object 1 for the same id.\<close>

definition example_store :: store where
  "example_store r =
     (if r = 0 then example_hit ''HYP220479'' 1 ''exact''
      else if r = 1 then example_hit ''HYP220479'' (7 / 10) ''vector''
      else example_hit ''HYP220480'' (41 / 100) ''vector'')"

definition example_state :: fusion_state where
  "example_state =
     \<lparr>objs = example_store, seen_ids = [''HYP220479'' \<mapsto> 0], fused_results = [0]\<rparr>"

section \<open>Invariant of the fusion loop\<close>

text \<open>
  After the loop has consumed \<open>xs\<close>: ids and scores of the stored objects are those of
  the start; \<open>seen_ids\<close> has exactly the ids met; the object it keeps for an id was
  met, is in \<open>fused_results\<close> and has the greatest score met for that id;
  \<open>fused_results\<close> holds one object per id.
\<close>

definition fusion_inv :: "store \<Rightarrow> ref list \<Rightarrow> fusion_state \<Rightarrow> bool" where
  "fusion_inv h xs s \<longleftrightarrow>
     (\<forall>r. sr_id (objs s r) = sr_id (h r) \<and> sr_score (objs s r) = sr_score (h r)) \<and>
     (\<forall>i. seen_ids s i = None \<longleftrightarrow> i \<notin> (\<lambda>r. sr_id (h r)) ` set xs) \<and>
     (\<forall>i a. seen_ids s i = Some a \<longrightarrow>
        a \<in> set xs \<and> sr_id (h a) = i \<and> a \<in> set (fused_results s) \<and>
        (\<forall>r\<in>set xs. sr_id (h r) = i \<longrightarrow> sr_score (h r) \<le> sr_score (h a))) \<and>
     (\<forall>a\<in>set (fused_results s). seen_ids s (sr_id (h a)) = Some a) \<and>
     distinct (map (\<lambda>r. sr_id (h r)) (fused_results s)) \<and>
     length (fused_results s) \<le> length xs"

section \<open>Properties of the fusion loop\<close>

lemma fusion_invI:
  assumes "\<And>r. sr_id (objs s r) = sr_id (h r)"
    and "\<And>r. sr_score (objs s r) = sr_score (h r)"
    and "\<And>i. seen_ids s i = None \<longleftrightarrow> i \<notin> (\<lambda>r. sr_id (h r)) ` set xs"
    and "\<And>i a. seen_ids s i = Some a \<Longrightarrow> a \<in> set xs"
    and "\<And>i a. seen_ids s i = Some a \<Longrightarrow> sr_id (h a) = i"
    and "\<And>i a. seen_ids s i = Some a \<Longrightarrow> a \<in> set (fused_results s)"
    and "\<And>i a r. seen_ids s i = Some a \<Longrightarrow> r \<in> set xs \<Longrightarrow> sr_id (h r) = i
           \<Longrightarrow> sr_score (h r) \<le> sr_score (h a)"
    and "\<And>a. a \<in> set (fused_results s) \<Longrightarrow> seen_ids s (sr_id (h a)) = Some a"
    and "distinct (map (\<lambda>r. sr_id (h r)) (fused_results s))"
    and "length (fused_results s) \<le> length xs"
  shows "fusion_inv h xs s"
  unfolding fusion_inv_def
proof (intro conjI allI impI ballI)
  fix r show "sr_id (objs s r) = sr_id (h r)" by (rule assms(1))
next
  fix r show "sr_score (objs s r) = sr_score (h r)" by (rule assms(2))
next
  fix i show "(seen_ids s i = None) = (i \<notin> (\<lambda>r. sr_id (h r)) ` set xs)" by (rule assms(3))
next
  fix i a assume "seen_ids s i = Some a" then show "a \<in> set xs" by (rule assms(4))
next
  fix i a assume "seen_ids s i = Some a" then show "sr_id (h a) = i" by (rule assms(5))
next
  fix i a assume "seen_ids s i = Some a" then show "a \<in> set (fused_results s)" by (rule assms(6))
next
  fix i a r assume "seen_ids s i = Some a" "r \<in> set xs" "sr_id (h r) = i"
  then show "sr_score (h r) \<le> sr_score (h a)" by (rule assms(7))
next
  fix a assume "a \<in> set (fused_results s)"
  then show "seen_ids s (sr_id (h a)) = Some a" by (rule assms(8))
next
  show "distinct (map (\<lambda>r. sr_id (h r)) (fused_results s))" by (rule assms(9))
next
  show "length (fused_results s) \<le> length xs" by (rule assms(10))
qed

lemma fusion_invD:
  assumes "fusion_inv h xs s"
  shows "sr_id (objs s r) = sr_id (h r)"
    and "sr_score (objs s r) = sr_score (h r)"
    and "seen_ids s i = None \<longleftrightarrow> i \<notin> (\<lambda>r. sr_id (h r)) ` set xs"
    and "seen_ids s i = Some a \<Longrightarrow> a \<in> set xs"
    and "seen_ids s i = Some a \<Longrightarrow> sr_id (h a) = i"
    and "seen_ids s i = Some a \<Longrightarrow> a \<in> set (fused_results s)"
    and "seen_ids s i = Some a \<Longrightarrow> r \<in> set xs \<Longrightarrow> sr_id (h r) = i
           \<Longrightarrow> sr_score (h r) \<le> sr_score (h a)"
    and "a \<in> set (fused_results s) \<Longrightarrow> seen_ids s (sr_id (h a)) = Some a"
    and "distinct (map (\<lambda>r. sr_id (h r)) (fused_results s))"
    and "length (fused_results s) \<le> length xs"
  using assms unfolding fusion_inv_def by simp_all

lemma replace_first_length: "length (replace_first h i r xs) = length xs"
  by (induction xs) simp_all

lemma replace_first_ids:
  "sr_id (g r) = i \<Longrightarrow> (\<And>x. sr_id (h x) = sr_id (g x)) \<Longrightarrow>
   map (\<lambda>x. sr_id (g x)) (replace_first h i r xs) = map (\<lambda>x. sr_id (g x)) xs"
  by (induction xs) simp_all

lemma replace_first_mem:
  "distinct (map (\<lambda>x. sr_id (h x)) xs) \<Longrightarrow> x \<in> set (replace_first h i r xs) \<Longrightarrow>
   x = r \<or> (x \<in> set xs \<and> sr_id (h x) \<noteq> i)"
proof (induction xs)
  case Nil
  then show ?case by simp
next
  case (Cons a xs)
  show ?case
  proof (cases "sr_id (h a) = i")
    case True
    with Cons.prems have "x = r \<or> x \<in> set xs" by simp
    moreover have "\<forall>y\<in>set xs. sr_id (h y) \<noteq> i"
      using Cons.prems(1) True by (auto simp: image_iff)
    ultimately show ?thesis by auto
  next
    case False
    with Cons.prems have "x = a \<or> x \<in> set (replace_first h i r xs)" by simp
    then show ?thesis using Cons.IH Cons.prems(1) False by auto
  qed
qed

lemma replace_first_hit:
  "e \<in> set xs \<Longrightarrow> sr_id (h e) = i \<Longrightarrow> r \<in> set (replace_first h i r xs)"
  by (induction xs) auto

lemma replace_first_keep:
  "a \<in> set xs \<Longrightarrow> sr_id (h a) \<noteq> i \<Longrightarrow> a \<in> set (replace_first h i r xs)"
  by (induction xs) auto

lemma fusion_inv_init:
  "fusion_inv h [] \<lparr>objs = h, seen_ids = Map.empty, fused_results = []\<rparr>"
  by (simp add: fusion_inv_def)

lemma fusion_step_new:
  assumes "seen_ids s (sr_id (objs s x)) = None"
  shows "fusion_step s x = s\<lparr>seen_ids := (seen_ids s)(sr_id (objs s x) \<mapsto> x),
            fused_results := fused_results s @ [x]\<rparr>"
  using assms by (simp add: fusion_step_def Let_def)

lemma fusion_step_replace:
  assumes "seen_ids s (sr_id (objs s x)) = Some e" "sr_score (objs s e) < sr_score (objs s x)"
  shows "fusion_step s x =
     s\<lparr>objs := (objs s)(x := (objs s x)\<lparr>sr_search_type :=
                  sr_search_type (objs s e) @ ''+'' @ sr_search_type (objs s x)\<rparr>),
       seen_ids := (seen_ids s)(sr_id (objs s x) \<mapsto> x),
       fused_results := replace_first
          ((objs s)(x := (objs s x)\<lparr>sr_search_type :=
                  sr_search_type (objs s e) @ ''+'' @ sr_search_type (objs s x)\<rparr>))
          (sr_id (objs s x)) x (fused_results s)\<rparr>"
  using assms by (simp add: fusion_step_def Let_def)

lemma fusion_step_keep:
  assumes "seen_ids s (sr_id (objs s x)) = Some e" "\<not> sr_score (objs s e) < sr_score (objs s x)"
  shows "fusion_step s x =
     s\<lparr>objs := (objs s)(e := (objs s e)\<lparr>sr_search_type :=
                  sr_search_type (objs s e) @ ''+'' @ sr_search_type (objs s x)\<rparr>)\<rparr>"
  using assms by (simp add: fusion_step_def Let_def)

lemma fusion_inv_step_new:
  assumes inv: "fusion_inv h xs s" and None: "seen_ids s (sr_id (objs s x)) = None"
  shows "fusion_inv h (xs @ [x]) (fusion_step s x)"
proof -
  note ids = fusion_invD(1) [OF inv] and scs = fusion_invD(2) [OF inv]
    and none = fusion_invD(3) [OF inv]
    and some_in = fusion_invD(4) [OF inv] and some_id = fusion_invD(5) [OF inv]
    and some_fused = fusion_invD(6) [OF inv] and some_max = fusion_invD(7) [OF inv]
    and fused = fusion_invD(8) [OF inv] and dist = fusion_invD(9) [OF inv]
    and len = fusion_invD(10) [OF inv]
  have sx: "seen_ids s (sr_id (h x)) = None" using None by (simp add: ids)
  have fresh: "sr_id (h x) \<notin> (\<lambda>r. sr_id (h r)) ` set (fused_results s)"
  proof
    assume "sr_id (h x) \<in> (\<lambda>r. sr_id (h r)) ` set (fused_results s)"
    then obtain a where a: "a \<in> set (fused_results s)" "sr_id (h a) = sr_id (h x)" by force
    from fused [OF a(1)] a(2) sx show False by simp
  qed
  have nox: "sr_id (h x) \<notin> (\<lambda>r. sr_id (h r)) ` set xs"
    using none [of "sr_id (h x)"] sx by simp
  show ?thesis
    unfolding fusion_step_new [OF None]
  proof (rule fusion_invI, goal_cases)
    case (1 r) show ?case by (simp add: ids)
  next
    case (2 r) show ?case by (simp add: scs)
  next
    case (3 i) show ?case using none [of i] by (simp add: ids)
  next
    case (4 i a)
    show ?case
    proof (cases "i = sr_id (h x)")
      case True with 4 show ?thesis by (simp add: ids)
    next
      case False with 4 have "seen_ids s i = Some a" by (simp add: ids)
      from some_in [OF this] show ?thesis by simp
    qed
  next
    case (5 i a)
    show ?case
    proof (cases "i = sr_id (h x)")
      case True with 5 show ?thesis by (simp add: ids)
    next
      case False with 5 have "seen_ids s i = Some a" by (simp add: ids)
      from some_id [OF this] show ?thesis by simp
    qed
  next
    case (6 i a)
    show ?case
    proof (cases "i = sr_id (h x)")
      case True with 6 show ?thesis by (simp add: ids)
    next
      case False with 6 have "seen_ids s i = Some a" by (simp add: ids)
      from some_fused [OF this] show ?thesis by simp
    qed
  next
    case (7 i a r)
    show ?case
    proof (cases "i = sr_id (h x)")
      case True
      with 7 have ax: "a = x" by (simp add: ids)
      have "r = x"
      proof (rule ccontr)
        assume "r \<noteq> x"
        with 7 have "r \<in> set xs" by simp
        with 7(3) True nox show False by (metis image_eqI)
      qed
      with ax show ?thesis by simp
    next
      case False
      with 7 have sa: "seen_ids s i = Some a" by (simp add: ids)
      have "r \<noteq> x" using 7(3) False by auto
      with 7 have "r \<in> set xs" by simp
      from some_max [OF sa this 7(3)] show ?thesis .
    qed
  next
    case (8 a)
    show ?case
    proof (cases "a = x")
      case True
      then show ?thesis by (simp add: ids)
    next
      case False
      with 8 have af: "a \<in> set (fused_results s)" by simp
      with fresh have "sr_id (h a) \<noteq> sr_id (h x)" by (metis image_eqI)
      with fused [OF af] show ?thesis by (simp add: ids)
    qed
  next
    case 9 show ?case using dist fresh by simp
  next
    case 10 show ?case using len by simp
  qed
qed

lemma fusion_inv_step_replace:
  assumes inv: "fusion_inv h xs s" and Some: "seen_ids s (sr_id (objs s x)) = Some e"
    and gt: "sr_score (objs s e) < sr_score (objs s x)"
  shows "fusion_inv h (xs @ [x]) (fusion_step s x)"
proof -
  note ids = fusion_invD(1) [OF inv] and scs = fusion_invD(2) [OF inv]
    and none = fusion_invD(3) [OF inv]
    and some_in = fusion_invD(4) [OF inv] and some_id = fusion_invD(5) [OF inv]
    and some_fused = fusion_invD(6) [OF inv] and some_max = fusion_invD(7) [OF inv]
    and fused = fusion_invD(8) [OF inv] and dist = fusion_invD(9) [OF inv]
    and len = fusion_invD(10) [OF inv]
  have se: "seen_ids s (sr_id (h x)) = Some e" using Some by (simp add: ids)
  note e_in = some_in [OF se] and e_id = some_id [OF se] and e_fused = some_fused [OF se]
    and e_max = some_max [OF se]
  define g where "g = (objs s)(x := (objs s x)\<lparr>sr_search_type :=
                  sr_search_type (objs s e) @ ''+'' @ sr_search_type (objs s x)\<rparr>)"
  have gid: "\<And>r. sr_id (g r) = sr_id (h r)" by (simp add: g_def ids)
  have gsc: "\<And>r. sr_score (g r) = sr_score (h r)" by (simp add: g_def scs)
  have step: "fusion_step s x = s\<lparr>objs := g,
                seen_ids := (seen_ids s)(sr_id (h x) \<mapsto> x),
                fused_results := replace_first g (sr_id (h x)) x (fused_results s)\<rparr>"
    using fusion_step_replace [OF Some gt] by (simp add: g_def ids)
  have dg: "distinct (map (\<lambda>r. sr_id (g r)) (fused_results s))"
    using dist by (simp add: gid)
  have mem: "\<And>a. a \<in> set (replace_first g (sr_id (h x)) x (fused_results s)) \<Longrightarrow>
               a = x \<or> (a \<in> set (fused_results s) \<and> sr_id (h a) \<noteq> sr_id (h x))"
    using replace_first_mem [OF dg] by (simp add: gid)
  have keep: "\<And>a. a \<in> set (fused_results s) \<Longrightarrow> sr_id (h a) \<noteq> sr_id (h x) \<Longrightarrow>
               a \<in> set (replace_first g (sr_id (h x)) x (fused_results s))"
    by (rule replace_first_keep) (simp_all add: gid)
  have hit: "x \<in> set (replace_first g (sr_id (h x)) x (fused_results s))"
    by (rule replace_first_hit [OF e_fused]) (simp add: gid e_id)
  show ?thesis unfolding step
  proof (rule fusion_invI, goal_cases)
    case (1 r) show ?case by (simp add: gid)
  next
    case (2 r) show ?case by (simp add: gsc)
  next
    case (3 i) show ?case using none [of i] by simp
  next
    case (4 i a)
    show ?case
    proof (cases "i = sr_id (h x)")
      case True with 4 show ?thesis by simp
    next
      case False with 4 have "seen_ids s i = Some a" by simp
      from some_in [OF this] show ?thesis by simp
    qed
  next
    case (5 i a)
    show ?case
    proof (cases "i = sr_id (h x)")
      case True with 5 show ?thesis by simp
    next
      case False with 5 have "seen_ids s i = Some a" by simp
      from some_id [OF this] show ?thesis by simp
    qed
  next
    case (6 i a)
    show ?case
    proof (cases "i = sr_id (h x)")
      case True
      with 6 have "a = x" by simp
      then show ?thesis using hit by simp
    next
      case False
      with 6 have sa: "seen_ids s i = Some a" by simp
      from some_fused [OF sa] some_id [OF sa] False
      have "a \<in> set (fused_results s)" "sr_id (h a) \<noteq> sr_id (h x)" by simp_all
      then show ?thesis using keep by simp
    qed
  next
    case (7 i a r)
    show ?case
    proof (cases "i = sr_id (h x)")
      case True
      with 7 have ax: "a = x" by simp
      show ?thesis
      proof (cases "r = x")
        case True
        then show ?thesis using ax by simp
      next
        case False
        with 7 have "r \<in> set xs" by simp
        from e_max [OF this] 7(3) \<open>i = sr_id (h x)\<close>
        have "sr_score (h r) \<le> sr_score (h e)" by simp
        also have "\<dots> \<le> sr_score (h x)" using gt by (simp add: scs)
        finally show ?thesis using ax by simp
      qed
    next
      case False
      with 7 have sa: "seen_ids s i = Some a" by simp
      have "r \<noteq> x" using 7(3) False by auto
      with 7 have "r \<in> set xs" by simp
      from some_max [OF sa this 7(3)] show ?thesis .
    qed
  next
    case (8 a)
    from mem [of a] 8
    have "a = x \<or> (a \<in> set (fused_results s) \<and> sr_id (h a) \<noteq> sr_id (h x))" by simp
    then show ?case
    proof
      assume "a = x" then show ?thesis by simp
    next
      assume "a \<in> set (fused_results s) \<and> sr_id (h a) \<noteq> sr_id (h x)"
      then show ?thesis using fused [of a] by simp
    qed
  next
    case 9
    have "map (\<lambda>r. sr_id (h r)) (replace_first g (sr_id (h x)) x (fused_results s))
          = map (\<lambda>r. sr_id (h r)) (fused_results s)"
      by (rule replace_first_ids) (simp_all add: gid)
    then show ?case using dist by simp
  next
    case 10 show ?case using len by (simp add: replace_first_length)
  qed
qed

lemma fusion_inv_step_keep:
  assumes inv: "fusion_inv h xs s" and Some: "seen_ids s (sr_id (objs s x)) = Some e"
    and ngt: "\<not> sr_score (objs s e) < sr_score (objs s x)"
  shows "fusion_inv h (xs @ [x]) (fusion_step s x)"
proof -
  note ids = fusion_invD(1) [OF inv] and scs = fusion_invD(2) [OF inv]
    and none = fusion_invD(3) [OF inv]
    and some_in = fusion_invD(4) [OF inv] and some_id = fusion_invD(5) [OF inv]
    and some_fused = fusion_invD(6) [OF inv] and some_max = fusion_invD(7) [OF inv]
    and fused = fusion_invD(8) [OF inv] and dist = fusion_invD(9) [OF inv]
    and len = fusion_invD(10) [OF inv]
  have se: "seen_ids s (sr_id (h x)) = Some e" using Some by (simp add: ids)
  define g where "g = (objs s)(e := (objs s e)\<lparr>sr_search_type :=
              sr_search_type (objs s e) @ ''+'' @ sr_search_type (objs s x)\<rparr>)"
  have gid: "\<And>r. sr_id (g r) = sr_id (h r)" by (simp add: g_def ids)
  have gsc: "\<And>r. sr_score (g r) = sr_score (h r)" by (simp add: g_def scs)
  have step: "fusion_step s x = s\<lparr>objs := g\<rparr>"
    using fusion_step_keep [OF Some ngt] by (simp add: g_def)
  show ?thesis unfolding step
  proof (rule fusion_invI, goal_cases)
    case (1 r) show ?case by (simp add: gid)
  next
    case (2 r) show ?case by (simp add: gsc)
  next
    case (3 i)
    have "sr_id (h x) \<in> (\<lambda>r. sr_id (h r)) ` set xs"
      using none [of "sr_id (h x)"] se by simp
    then show ?case using none [of i] by auto
  next
    case (4 i a) then show ?case using some_in [of i a] by simp
  next
    case (5 i a) then show ?case using some_id [of i a] by simp
  next
    case (6 i a) then show ?case using some_fused [of i a] by simp
  next
    case (7 i a r)
    then have sa: "seen_ids s i = Some a" by simp
    show ?case
    proof (cases "r = x")
      case True
      with 7(3) have ix: "i = sr_id (h x)" by simp
      with sa se have "a = e" by simp
      then show ?thesis using ngt True by (simp add: scs)
    next
      case False
      with 7 have "r \<in> set xs" by simp
      from some_max [OF sa this 7(3)] show ?thesis .
    qed
  next
    case (8 a) then show ?case using fused [of a] by simp
  next
    case 9 show ?case using dist by simp
  next
    case 10 show ?case using len by simp
  qed
qed

lemma fusion_inv_step:
  assumes inv: "fusion_inv h xs s"
  shows "fusion_inv h (xs @ [x]) (fusion_step s x)"
proof (cases "seen_ids s (sr_id (objs s x))")
  case None
  then show ?thesis by (rule fusion_inv_step_new [OF inv])
next
  case (Some e)
  show ?thesis
  proof (cases "sr_score (objs s e) < sr_score (objs s x)")
    case True
    then show ?thesis by (rule fusion_inv_step_replace [OF inv Some])
  next
    case False
    then show ?thesis by (rule fusion_inv_step_keep [OF inv Some])
  qed
qed

lemma fusion_inv_loop: "fusion_inv h xs (fusion_loop h xs)"
proof (induction xs rule: rev_induct)
  case Nil
  show ?case by (simp add: fusion_loop_def fusion_inv_init)
next
  case (snoc x xs)
  have "fusion_loop h (xs @ [x]) = fusion_step (fusion_loop h xs) x"
    by (simp add: fusion_loop_def)
  with fusion_inv_step [OF snoc.IH] show ?case by simp
qed

section \<open>Simple fusion: deduplication, bounds, maximal score\<close>

lemma fused_hits_simple_fusion:
  "fused_hits (simple_fusion h ex vec) =
     map (objs (fusion_loop h (ex @ vec)))
       (sort_by_score_desc (objs (fusion_loop h (ex @ vec)))
          (fused_results (fusion_loop h (ex @ vec))))"
  by (simp add: fused_hits_def simple_fusion_def Let_def)

lemma set_sort_by_score_desc [simp]: "set (sort_by_score_desc g rs) = set rs"
  by (simp add: sort_by_score_desc_def)

lemma length_sort_by_score_desc [simp]: "length (sort_by_score_desc g rs) = length rs"
  by (simp add: sort_by_score_desc_def)

lemma distinct_map_sort_by_score_desc:
  "distinct (map f (sort_by_score_desc g rs)) = distinct (map f rs)"
  by (simp add: sort_by_score_desc_def distinct_map)

lemma simple_fusion_ids:
  "map sr_id (fused_hits (simple_fusion h ex vec)) =
     map (\<lambda>r. sr_id (h r))
       (sort_by_score_desc (objs (fusion_loop h (ex @ vec)))
          (fused_results (fusion_loop h (ex @ vec))))"
  using fusion_invD(1) [OF fusion_inv_loop [of h "ex @ vec"]]
  by (simp add: fused_hits_simple_fusion)

lemma simple_fusion_distinct:
  "distinct (map sr_id (fused_hits (simple_fusion h ex vec)))"
  using fusion_invD(9) [OF fusion_inv_loop [of h "ex @ vec"]]
  by (simp add: simple_fusion_ids distinct_map_sort_by_score_desc)

lemma simple_fusion_length:
  "length (fused_hits (simple_fusion h ex vec)) \<le> length ex + length vec"
  using fusion_invD(10) [OF fusion_inv_loop [of h "ex @ vec"]]
  by (simp add: fused_hits_simple_fusion)

lemma parallel_search_result:
  "\<exists>h ex vec. fst (parallel_search model cache client query count) =
      Inr (slice_to count (fused_hits (simple_fusion h ex vec)))"
  by (auto simp: parallel_search_def Let_def split: prod.splits)

lemma length_slice_to: "0 \<le> n \<Longrightarrow> int (length (slice_to n xs)) \<le> n"
  by (simp add: slice_to_def)

lemma filter_distinct_key:
  "distinct (map f xs) \<Longrightarrow> x \<in> set xs \<Longrightarrow> filter (\<lambda>y. f y = f x) xs = [x]"
proof (induction xs)
  case Nil
  then show ?case by simp
next
  case (Cons a xs)
  show ?case
  proof (cases "a = x")
    case True
    have "\<forall>y\<in>set xs. f y \<noteq> f x" using Cons.prems(1) True by (auto simp: image_iff)
    then have "filter (\<lambda>y. f y = f x) xs = []" by (simp add: filter_empty_conv)
    with True show ?thesis by simp
  next
    case False
    with Cons.prems have xin: "x \<in> set xs" by simp
    then have "f a \<noteq> f x" using Cons.prems(1) by (auto simp: image_iff)
    with Cons.IH xin Cons.prems(1) show ?thesis by simp
  qed
qed

lemma example_state_reached: "fusion_loop example_store [0] = example_state"
  by (simp add: fusion_loop_def fusion_step_def example_state_def example_store_def
      example_hit_def Let_def)

text \<open>
  Claim C1. For every pair of input lists the output of the simple fusion holds each hit
  id at most once and is at most as long as the two inputs together; and the list
  \<^verbatim>\<open>parallel_search\<close> returns is at most as long as the requested count. The count is
  a number of results, so it is not negative; for a negative count the slice
  \<^verbatim>\<open>fused_results[:count]\<close> drops hits from the end instead.
\<close>

theorem fusion_dedup_and_bounds:
  "distinct (map sr_id (fused_hits (simple_fusion h exact_results vector_results))) \<and>
   length (fused_hits (simple_fusion h exact_results vector_results))
     \<le> length exact_results + length vector_results \<and>
   (0 \<le> count \<longrightarrow>
      (\<exists>hits. fst (parallel_search model cache client query count) = Inr hits \<and>
         int (length hits) \<le> count))"
proof (intro conjI impI)
  show "distinct (map sr_id (fused_hits (simple_fusion h exact_results vector_results)))"
    by (rule simple_fusion_distinct)
  show "length (fused_hits (simple_fusion h exact_results vector_results))
          \<le> length exact_results + length vector_results"
    by (rule simple_fusion_length)
  assume "0 \<le> count"
  from parallel_search_result [of model cache client query count]
  obtain g ex vec where "fst (parallel_search model cache client query count) =
      Inr (slice_to count (fused_hits (simple_fusion g ex vec)))" by blast
  with length_slice_to [OF \<open>0 \<le> count\<close>]
  show "\<exists>hits. fst (parallel_search model cache client query count) = Inr hits \<and>
         int (length hits) \<le> count" by blast
qed

theorem fusion_dedup_and_bounds_witness:
  "(0::int) \<le> 10 \<and>
   (\<exists>hits. fst (parallel_search example_model [] example_client ''HYP220479'' 10) = Inr hits \<and>
      int (length hits) \<le> 10)"
  using fusion_dedup_and_bounds [of example_store "[0]" "[1, 2]" 10 example_model "[]"
      example_client "''HYP220479''"]
  by simp

text \<open>
  Claim C2. For an id that appears in both input lists (once in each), the fused output
  has exactly one hit with that id, and its score is the maximum of the exact hit's
  score and the vector hit's score.
\<close>

theorem fusion_max_score:
  assumes ex: "filter (\<lambda>r. sr_id (h r) = i) exact_results = [e]"
    and vec: "filter (\<lambda>r. sr_id (h r) = i) vector_results = [v]"
  shows "\<exists>x. filter (\<lambda>y. sr_id y = i)
                 (fused_hits (simple_fusion h exact_results vector_results)) = [x] \<and>
             sr_score x = max (sr_score (h e)) (sr_score (h v))"
proof -
  define xs where "xs = exact_results @ vector_results"
  define s where "s = fusion_loop h xs"
  have inv: "fusion_inv h xs s" unfolding s_def by (rule fusion_inv_loop)
  have "e \<in> set (filter (\<lambda>r. sr_id (h r) = i) exact_results)" by (simp add: ex)
  then have e: "e \<in> set xs" "sr_id (h e) = i" by (simp_all add: xs_def)
  have "v \<in> set (filter (\<lambda>r. sr_id (h r) = i) vector_results)" by (simp add: vec)
  then have v: "v \<in> set xs" "sr_id (h v) = i" by (simp_all add: xs_def)
  have both: "filter (\<lambda>r. sr_id (h r) = i) xs = [e, v]" by (simp add: xs_def ex vec)
  have "i \<in> (\<lambda>r. sr_id (h r)) ` set xs" using e by (metis image_eqI)
  with fusion_invD(3) [OF inv, of i] obtain a where a: "seen_ids s i = Some a" by auto
  note a_in = fusion_invD(4) [OF inv a] and a_id = fusion_invD(5) [OF inv a]
    and a_fused = fusion_invD(6) [OF inv a]
  have "a \<in> set (filter (\<lambda>r. sr_id (h r) = i) xs)" using a_in a_id by simp
  then have a_ev: "a = e \<or> a = v" by (simp add: both)
  have ge_e: "sr_score (h e) \<le> sr_score (h a)" by (rule fusion_invD(7) [OF inv a e])
  have ge_v: "sr_score (h v) \<le> sr_score (h a)" by (rule fusion_invD(7) [OF inv a v])
  have score: "sr_score (h a) = max (sr_score (h e)) (sr_score (h v))"
    using a_ev ge_e ge_v by auto
  define hits where "hits = fused_hits (simple_fusion h exact_results vector_results)"
  have hits: "hits = map (objs s) (sort_by_score_desc (objs s) (fused_results s))"
    by (simp add: hits_def fused_hits_simple_fusion s_def xs_def)
  have x_in: "objs s a \<in> set hits" using a_fused by (simp add: hits)
  have x_id: "sr_id (objs s a) = i" using fusion_invD(1) [OF inv] a_id by simp
  have x_sc: "sr_score (objs s a) = sr_score (h a)" by (rule fusion_invD(2) [OF inv])
  have "distinct (map sr_id hits)" unfolding hits_def by (rule simple_fusion_distinct)
  from filter_distinct_key [OF this x_in] x_id
  have "filter (\<lambda>y. sr_id y = i) hits = [objs s a]" by simp
  with x_sc score show ?thesis unfolding hits_def by auto
qed

theorem fusion_max_score_witness:
  "filter (\<lambda>r. sr_id (example_store r) = ''HYP220479'') [0] = [0] \<and>
   filter (\<lambda>r. sr_id (example_store r) = ''HYP220479'') [1, 2] = [1] \<and>
   (\<exists>x. filter (\<lambda>y. sr_id y = ''HYP220479'')
           (fused_hits (simple_fusion example_store [0] [1, 2])) = [x] \<and>
        sr_score x = 1)"
proof -
  have a: "filter (\<lambda>r. sr_id (example_store r) = ''HYP220479'') [0] = [0]"
    by (simp add: example_store_def example_hit_def)
  have b: "filter (\<lambda>r. sr_id (example_store r) = ''HYP220479'') [1, 2] = [1]"
    by (simp add: example_store_def example_hit_def)
  have m: "max (sr_score (example_store 0)) (sr_score (example_store 1)) = 1"
    by (simp add: example_store_def example_hit_def)
  from fusion_max_score [OF a b] m a b show ?thesis by simp
qed

text \<open>
  Claim C3. When a duplicate id arrives whose score is not strictly greater than the
  stored hit's score, the stored hit's \<^verbatim>\<open>search_type\<close> becomes
  \<^verbatim>\<open>"{storedType}+{newType}"\<close>; its score, payload and other fields stay as they
  were, no other object changes, and neither \<open>seen_ids\<close> nor \<open>fused_results\<close> changes.
\<close>

theorem fusion_keep_existing:
  assumes "seen_ids s (sr_id (objs s result)) = Some existing"
    and "\<not> sr_score (objs s result) > sr_score (objs s existing)"
  shows "sr_search_type (objs (fusion_step s result) existing) =
           sr_search_type (objs s existing) @ ''+'' @ sr_search_type (objs s result) \<and>
         sr_score (objs (fusion_step s result) existing) = sr_score (objs s existing) \<and>
         sr_payload (objs (fusion_step s result) existing) = sr_payload (objs s existing) \<and>
         sr_id (objs (fusion_step s result) existing) = sr_id (objs s existing) \<and>
         sr_qdrant_id (objs (fusion_step s result) existing) = sr_qdrant_id (objs s existing) \<and>
         sr_boost_factor (objs (fusion_step s result) existing) =
           sr_boost_factor (objs s existing) \<and>
         (\<forall>r. r \<noteq> existing \<longrightarrow> objs (fusion_step s result) r = objs s r) \<and>
         seen_ids (fusion_step s result) = seen_ids s \<and>
         fused_results (fusion_step s result) = fused_results s"
  unfolding fusion_step_keep [OF assms] by simp

theorem fusion_keep_existing_witness:
  "seen_ids example_state (sr_id (objs example_state 1)) = Some 0 \<and>
   \<not> sr_score (objs example_state 1) > sr_score (objs example_state 0) \<and>
   sr_search_type (objs (fusion_step example_state 1) 0) = ''exact+vector'' \<and>
   sr_score (objs (fusion_step example_state 1) 0) = 1 \<and>
   objs (fusion_step example_state 1) 2 = objs example_state 2 \<and>
   fused_results (fusion_step example_state 1) = [0]"
proof -
  have a: "seen_ids example_state (sr_id (objs example_state 1)) = Some 0"
    by (simp add: example_state_def example_store_def example_hit_def)
  have b: "\<not> sr_score (objs example_state 1) > sr_score (objs example_state 0)"
    by (simp add: example_state_def example_store_def example_hit_def)
  have c: "sr_search_type (objs example_state 0) @ ''+'' @ sr_search_type (objs example_state 1)
             = ''exact+vector''"
    by (simp add: example_state_def example_store_def example_hit_def)
  have d: "sr_score (objs example_state 0) = 1" "fused_results example_state = [0]"
    by (simp_all add: example_state_def example_store_def example_hit_def)
  from fusion_keep_existing [OF a b] have
    "sr_search_type (objs (fusion_step example_state 1) 0) =
       sr_search_type (objs example_state 0) @ ''+'' @ sr_search_type (objs example_state 1)"
    "sr_score (objs (fusion_step example_state 1) 0) = sr_score (objs example_state 0)"
    "\<forall>r. r \<noteq> 0 \<longrightarrow> objs (fusion_step example_state 1) r = objs example_state r"
    "fused_results (fusion_step example_state 1) = fused_results example_state"
    by blast+
  with a b c d show ?thesis by simp
qed

section \<open>Embedding lookup\<close>



text \<open>
  Claim C4, as the code has it. The claim says that a failing embedder call propagates
  an \<^verbatim>\<open>EmbeddingError\<close> and that no fallback vector is substituted. The method
  catches the exception and returns 384 zeros: with a failing embedder and no cached
  entry for the text, the lookup returns the zero vector as a normal result and caches
  it, and the vector search queries the index with the zero vector.
\<close>

theorem embedding_failure_fallback:
  assumes "model text = Inl e" and "map_of cache text = None"
  shows "get_embedding_cached model cache text =
           (Inr (replicate 384 0), take 2000 ((text, replicate 384 0) # cache)) \<and>
         fst (vector_search_async model cache client text count) =
           (case query_points client (replicate 384 0) count of
              Inl err \<Rightarrow> []
            | Inr points \<Rightarrow> map vector_hit (filter (\<lambda>p. pt_score p \<ge> 4 / 10) points))"
proof -
  have g: "get_embedding_cached model cache text =
           (Inr (replicate 384 0), take 2000 ((text, replicate 384 0) # cache))"
    using assms by (simp add: get_embedding_cached_def embedding_body_def)
  then show ?thesis
    by (simp add: vector_search_async_def split: sum.split)
qed

theorem embedding_failure_fallback_witness:
  "failing_model ''gas torch'' = Inl EmbeddingError \<and> map_of [] ''gas torch'' = None \<and>
   get_embedding_cached failing_model [] ''gas torch'' =
     (Inr (replicate 384 0), take 2000 [(''gas torch'', replicate 384 0)]) \<and>
   fst (vector_search_async failing_model [] example_client ''gas torch'' 20) =
     map vector_hit (filter (\<lambda>p. pt_score p \<ge> 4 / 10) example_points)"
proof -
  have a: "failing_model ''gas torch'' = Inl EmbeddingError" by (simp add: failing_model_def)
  have b: "map_of ([] :: embedding_cache) ''gas torch'' = None" by simp
  have c: "query_points example_client (replicate 384 0) 20 = Inr example_points"
    by (simp add: example_client_def)
  from embedding_failure_fallback [of failing_model "''gas torch''" EmbeddingError "[]"
      example_client 20, OF a b] a c
  show ?thesis by simp
qed

text \<open>
  The claim C4 as stated fails: the embedder fails on \<^verbatim>\<open>"gas torch"\<close>, and the
  lookup returns the zero vector, not an error.
\<close>

theorem embedding_error_counterexample:
  "failing_model ''gas torch'' = Inl EmbeddingError \<and>
   fst (get_embedding_cached failing_model [] ''gas torch'') \<noteq> Inl EmbeddingError \<and>
   fst (get_embedding_cached failing_model [] ''gas torch'') = Inr (replicate 384 0)"
  by (simp add: failing_model_def get_embedding_cached_def embedding_body_def)

section \<open>Exact search: short circuit\<close>

lemma exact_search_async_unfold:
  "exact_search_async client query count =
     (let q = upper (strip query); l = min count 10 in
      case scroll client ''partNumber_airgas_text'' q l of
        Inr (p # ps) \<Rightarrow> (map (exact_hit 1 ''exact'') (p # ps), [(''partNumber_airgas_text'', q, l)])
      | Inr [] \<Rightarrow>
          (case scroll client ''manufacturerPartNumber_text'' q l of
             Inl e \<Rightarrow> []
           | Inr ps \<Rightarrow> map (exact_hit (9 / 10) ''exact_mfg'') ps,
           [(''partNumber_airgas_text'', q, l), (''manufacturerPartNumber_text'', q, l)])
      | Inl e \<Rightarrow>
          (case scroll client ''manufacturerPartNumber_text'' q l of
             Inl e \<Rightarrow> []
           | Inr ps \<Rightarrow> map (exact_hit (9 / 10) ''exact_mfg'') ps,
           [(''partNumber_airgas_text'', q, l), (''manufacturerPartNumber_text'', q, l)]))"
  by (simp add: exact_search_async_def search_fields_def Let_def split: sum.split list.split)

text \<open>
  Claim C6. For every query and limit: if the lookup on the primary field
  \<^verbatim>\<open>partNumber_airgas_text\<close> returns at least one point, that lookup is the only one
  issued; if it returns no point, the secondary field
  \<^verbatim>\<open>manufacturerPartNumber_text\<close> is queried next.
\<close>

theorem exact_search_short_circuit:
  "(\<forall>p ps. scroll client ''partNumber_airgas_text'' (upper (strip query)) (min count 10)
             = Inr (p # ps) \<longrightarrow>
      snd (exact_search_async client query count) =
        [(''partNumber_airgas_text'', upper (strip query), min count 10)]) \<and>
   (scroll client ''partNumber_airgas_text'' (upper (strip query)) (min count 10) = Inr [] \<longrightarrow>
      snd (exact_search_async client query count) =
        [(''partNumber_airgas_text'', upper (strip query), min count 10),
         (''manufacturerPartNumber_text'', upper (strip query), min count 10)])"
  by (simp add: exact_search_async_unfold Let_def)

theorem exact_search_short_circuit_witness:
  "scroll example_client ''partNumber_airgas_text'' (upper (strip '' hyp220479 '')) (min 10 10)
     = Inr [example_point ''7'' 0 ''HYP220479''] \<and>
   snd (exact_search_async example_client '' hyp220479 '' 10) =
     [(''partNumber_airgas_text'', ''HYP220479'', 10)] \<and>
   scroll example_client ''partNumber_airgas_text'' (upper (strip ''gas torch'')) (min 10 10)
     = Inr [] \<and>
   snd (exact_search_async example_client ''gas torch'' 10) =
     [(''partNumber_airgas_text'', ''GAS TORCH'', 10),
      (''manufacturerPartNumber_text'', ''GAS TORCH'', 10)]"
proof -
  have q1: "upper (strip '' hyp220479 '') = ''HYP220479''"
    by (simp add: upper_def strip_def isspace_def upper_char_def ascii_lowercase_def
        ascii_uppercase_def)
  have q2: "upper (strip ''gas torch'') = ''GAS TORCH''"
    by (simp add: upper_def strip_def isspace_def upper_char_def ascii_lowercase_def
        ascii_uppercase_def)
  have a: "scroll example_client ''partNumber_airgas_text'' (upper (strip '' hyp220479 ''))
             (min 10 10) = Inr [example_point ''7'' 0 ''HYP220479'']"
    by (simp add: q1 example_client_def)
  have b: "scroll example_client ''partNumber_airgas_text'' (upper (strip ''gas torch''))
             (min 10 10) = Inr []"
    by (simp add: q2 example_client_def)
  from exact_search_short_circuit [of example_client "'' hyp220479 ''" 10] a
  have c: "snd (exact_search_async example_client '' hyp220479 '' 10) =
        [(''partNumber_airgas_text'', upper (strip '' hyp220479 ''), min 10 10)]" by blast
  from exact_search_short_circuit [of example_client "''gas torch''" 10] b
  have d: "snd (exact_search_async example_client ''gas torch'' 10) =
        [(''partNumber_airgas_text'', upper (strip ''gas torch''), min 10 10),
         (''manufacturerPartNumber_text'', upper (strip ''gas torch''), min 10 10)]" by blast
  from a b c d show ?thesis by (simp add: q1 q2)
qed

section \<open>Vector search: relevance floor\<close>

text \<open>
  Claim C7. When the index answers the query, a point it returned has its hit in the
  output of the vector search if and only if its score is at least 0.4; a point scored
  0.39 is left out and a point scored 0.41 is kept.
\<close>

theorem vector_relevance_floor:
  assumes "fst (get_embedding_cached model cache query) = Inr query_vector"
    and "query_points client query_vector count = Inr points"
    and "p \<in> set points"
  shows "(vector_hit p \<in> set (fst (vector_search_async model cache client query count))
            \<longleftrightarrow> pt_score p \<ge> 4 / 10) \<and>
         (pt_score p = 39 / 100 \<longrightarrow>
            vector_hit p \<notin> set (fst (vector_search_async model cache client query count))) \<and>
         (pt_score p = 41 / 100 \<longrightarrow>
            vector_hit p \<in> set (fst (vector_search_async model cache client query count)))"
proof -
  have out: "fst (vector_search_async model cache client query count) =
               map vector_hit (filter (\<lambda>p. pt_score p \<ge> 4 / 10) points)"
    using assms(1,2) by (cases "get_embedding_cached model cache query")
      (simp add: vector_search_async_def)
  have iff: "vector_hit p \<in> set (map vector_hit (filter (\<lambda>p. pt_score p \<ge> 4 / 10) points))
               \<longleftrightarrow> pt_score p \<ge> 4 / 10"
  proof
    assume "vector_hit p \<in> set (map vector_hit (filter (\<lambda>p. pt_score p \<ge> 4 / 10) points))"
    then obtain q where q: "q \<in> set points" "pt_score q \<ge> 4 / 10" "vector_hit q = vector_hit p"
      by auto
    from q(3) have "sr_score (vector_hit q) = sr_score (vector_hit p)" by simp
    then have "pt_score q = pt_score p" by (simp add: vector_hit_def)
    with q(2) show "pt_score p \<ge> 4 / 10" by simp
  next
    assume "pt_score p \<ge> 4 / 10"
    with assms(3) show "vector_hit p \<in> set (map vector_hit (filter (\<lambda>p. pt_score p \<ge> 4 / 10) points))"
      by simp
  qed
  show ?thesis unfolding out using iff by simp
qed

theorem vector_relevance_floor_witness:
  "fst (get_embedding_cached example_model [] ''gas torch'') = Inr [1, 0] \<and>
   query_points example_client [1, 0] 20 = Inr example_points \<and>
   example_point ''8'' (41 / 100) ''HYP220480'' \<in> set example_points \<and>
   example_point ''9'' (39 / 100) ''HYP220481'' \<in> set example_points \<and>
   vector_hit (example_point ''8'' (41 / 100) ''HYP220480'')
     \<in> set (fst (vector_search_async example_model [] example_client ''gas torch'' 20)) \<and>
   vector_hit (example_point ''9'' (39 / 100) ''HYP220481'')
     \<notin> set (fst (vector_search_async example_model [] example_client ''gas torch'' 20))"
proof -
  have a: "fst (get_embedding_cached example_model [] ''gas torch'') = Inr [1, 0]"
    by (simp add: get_embedding_cached_def embedding_body_def example_model_def)
  have b: "query_points example_client [1, 0] 20 = Inr example_points"
    by (simp add: example_client_def)
  have c: "example_point ''8'' (41 / 100) ''HYP220480'' \<in> set example_points"
    by (simp add: example_points_def)
  have d: "example_point ''9'' (39 / 100) ''HYP220481'' \<in> set example_points"
    by (simp add: example_points_def)
  have s8: "pt_score (example_point ''8'' (41 / 100) ''HYP220480'') = 41 / 100"
    and s9: "pt_score (example_point ''9'' (39 / 100) ''HYP220481'') = 39 / 100"
    by (simp_all add: example_point_def)
  from vector_relevance_floor [OF a b c] s8
  have e: "vector_hit (example_point ''8'' (41 / 100) ''HYP220480'')
     \<in> set (fst (vector_search_async example_model [] example_client ''gas torch'' 20))"
    by blast
  from vector_relevance_floor [OF a b d] s9
  have f: "vector_hit (example_point ''9'' (39 / 100) ''HYP220481'')
     \<notin> set (fst (vector_search_async example_model [] example_client ''gas torch'' 20))"
    by blast
  from a b c d e f show ?thesis by blast
qed

section \<open>Orchestrator: timeouts\<close>









section \<open>Reciprocal rank fusion: consensus\<close>

lemma keyed_update:
  assumes "keyed fused" "pt_id (entry_point v) = j"
  shows "keyed (AList.update j v fused)"
  using assms by (auto simp: keyed_def distinct_update update_conv' split: if_splits)

lemma keyed_map_entry:
  assumes "keyed fused" "\<And>e. entry_point (f e) = entry_point e"
  shows "keyed (AList.map_entry j f fused)"
  using assms
  by (auto simp: keyed_def distinct_map_entry map_of_map_entry split: if_splits option.splits)

lemma dom_update_insert: "fst ` set (AList.update j v fused) = insert j (fst ` set fused)"
  by (simp add: dom_update)

lemma key_present: "map_of fused j \<noteq> None \<Longrightarrow> insert j (fst ` set fused) = fst ` set fused"
  by (auto simp: map_of_eq_None_iff)

lemma good_dense_step: "good_step k (dense_step k)"
  unfolding good_step_def
proof (intro allI impI)
  fix rp :: "nat \<times> point" and fused :: fused_scores
  assume nz: "k + real (fst rp) \<noteq> 0"
  define j where "j = pt_id (snd rp)"
  define rrf where "rrf = 1 / (k + real (fst rp))"
  define new where "new = \<lparr>rrf_score = 0, dense_rank = fst rp, sparse_rank = 0,
                     dense_score = pt_score (snd rp), sparse_score = 0, entry_point = snd rp\<rparr>"
  define mid where "mid = (if map_of fused j = None then AList.update j new fused else fused)"
  define out where "out = AList.map_entry j (\<lambda>e. e\<lparr>rrf_score := rrf_score e + rrf\<rparr>) mid"
  have step: "dense_step k rp fused = Inr out"
    using nz by (simp add: dense_step_def Let_def out_def mid_def new_def rrf_def j_def)
  have mid_j: "map_of mid j \<noteq> None" by (simp add: mid_def update_conv')
  have mid_sc: "\<And>i. score_of mid i = score_of fused i"
    by (auto simp: mid_def score_of_def update_conv' new_def split: option.splits)
  have sc: "\<And>i. score_of out i = score_of fused i + (if j = i then rrf else 0)"
    using mid_j unfolding mid_sc [symmetric]
    by (auto simp: out_def score_of_def map_of_map_entry split: option.splits)
  have ky: "keyed fused \<longrightarrow> keyed out"
    unfolding out_def mid_def
    by (auto intro!: keyed_map_entry keyed_update simp: new_def j_def)
  have keys: "fst ` set out = insert j (fst ` set fused)"
    by (simp add: out_def dom_map_entry mid_def dom_update_insert key_present)
  show "\<exists>fused'. dense_step k rp fused = Inr fused' \<and>
           (\<forall>i. score_of fused' i =
                  score_of fused i + (if pt_id (snd rp) = i then 1 / (k + real (fst rp)) else 0)) \<and>
           (keyed fused \<longrightarrow> keyed fused') \<and>
           fst ` set fused' = insert (pt_id (snd rp)) (fst ` set fused)"
    using step sc ky keys unfolding j_def rrf_def by blast
qed

lemma good_sparse_step: "good_step k (sparse_step k)"
  unfolding good_step_def
proof (intro allI impI)
  fix rp :: "nat \<times> point" and fused :: fused_scores
  assume nz: "k + real (fst rp) \<noteq> 0"
  define j where "j = pt_id (snd rp)"
  define rrf where "rrf = 1 / (k + real (fst rp))"
  define new where "new = \<lparr>rrf_score = 0, dense_rank = 0, sparse_rank = fst rp,
                     dense_score = 0, sparse_score = pt_score (snd rp), entry_point = snd rp\<rparr>"
  define mid where "mid = (if map_of fused j = None then AList.update j new fused
      else AList.map_entry j (\<lambda>e. e\<lparr>sparse_rank := fst rp, sparse_score := pt_score (snd rp)\<rparr>) fused)"
  define out where "out = AList.map_entry j (\<lambda>e. e\<lparr>rrf_score := rrf_score e + rrf\<rparr>) mid"
  have step: "sparse_step k rp fused = Inr out"
    using nz by (simp add: sparse_step_def Let_def out_def mid_def new_def rrf_def j_def)
  have mid_j: "map_of mid j \<noteq> None"
    by (auto simp: mid_def update_conv' map_of_map_entry)
  have mid_sc: "\<And>i. score_of mid i = score_of fused i"
    by (auto simp: mid_def score_of_def update_conv' map_of_map_entry new_def split: option.splits)
  have sc: "\<And>i. score_of out i = score_of fused i + (if j = i then rrf else 0)"
    using mid_j unfolding mid_sc [symmetric]
    by (auto simp: out_def score_of_def map_of_map_entry split: option.splits)
  have ky: "keyed fused \<longrightarrow> keyed out"
    unfolding out_def mid_def
    by (auto intro!: keyed_map_entry keyed_update simp: new_def j_def)
  have keys: "fst ` set out = insert j (fst ` set fused)"
    by (simp add: out_def dom_map_entry mid_def dom_update_insert key_present)
  show "\<exists>fused'. sparse_step k rp fused = Inr fused' \<and>
           (\<forall>i. score_of fused' i =
                  score_of fused i + (if pt_id (snd rp) = i then 1 / (k + real (fst rp)) else 0)) \<and>
           (keyed fused \<longrightarrow> keyed fused') \<and>
           fst ` set fused' = insert (pt_id (snd rp)) (fst ` set fused)"
    using step sc ky keys unfolding j_def rrf_def by blast
qed

lemma rrf_loop_good:
  assumes "good_step k step" "\<forall>rp\<in>set rps. k + real (fst rp) \<noteq> 0"
  shows "\<exists>fused'. rrf_loop step rps fused = Inr fused' \<and>
           (\<forall>i. score_of fused' i = score_of fused i + contrib k rps i) \<and>
           (keyed fused \<longrightarrow> keyed fused') \<and>
           fst ` set fused' = fst ` set fused \<union> pt_id ` snd ` set rps"
  using assms(2)
proof (induction rps arbitrary: fused)
  case Nil
  show ?case by (simp add: contrib_def)
next
  case (Cons rp rps)
  from Cons.prems have nz: "k + real (fst rp) \<noteq> 0" by simp
  from assms(1) nz obtain f1 where f1: "step rp fused = Inr f1"
    "\<And>i. score_of f1 i = score_of fused i + (if pt_id (snd rp) = i then 1 / (k + real (fst rp)) else 0)"
    "keyed fused \<longrightarrow> keyed f1" "fst ` set f1 = insert (pt_id (snd rp)) (fst ` set fused)"
    unfolding good_step_def by blast
  from Cons.prems have "\<forall>rp\<in>set rps. k + real (fst rp) \<noteq> 0" by simp
  from Cons.IH [OF this, of f1] obtain f2 where f2: "rrf_loop step rps f1 = Inr f2"
    "\<And>i. score_of f2 i = score_of f1 i + contrib k rps i"
    "keyed f1 \<longrightarrow> keyed f2" "fst ` set f2 = fst ` set f1 \<union> pt_id ` snd ` set rps"
    by blast
  have "rrf_loop step (rp # rps) fused = Inr f2" by (simp add: f1(1) f2(1))
  moreover have "\<forall>i. score_of f2 i = score_of fused i + contrib k (rp # rps) i"
    by (simp add: f2(2) f1(2) contrib_def)
  moreover have "keyed fused \<longrightarrow> keyed f2" using f1(3) f2(3) by blast
  moreover have "fst ` set f2 = fst ` set fused \<union> pt_id ` snd ` set (rp # rps)"
    by (simp add: f2(4) f1(4))
  ultimately show ?case by blast
qed

lemma contrib_absent: "i \<notin> pt_id ` set xs \<Longrightarrow> contrib k (enumerate n xs) i = 0"
  by (induction xs arbitrary: n) (auto simp: contrib_def)

lemma contrib_at:
  "distinct (map pt_id xs) \<Longrightarrow> m < length xs \<Longrightarrow> pt_id (xs ! m) = i \<Longrightarrow>
   contrib k (enumerate n xs) i = 1 / (k + real (n + m))"
proof (induction xs arbitrary: n m)
  case Nil
  then show ?case by simp
next
  case (Cons x xs)
  show ?case
  proof (cases m)
    case 0
    with Cons.prems have "pt_id x = i" "i \<notin> pt_id ` set xs" by auto
    then have "contrib k (enumerate (Suc n) xs) i = 0" by (simp add: contrib_absent)
    with \<open>pt_id x = i\<close> 0 contrib_absent show ?thesis by (simp add: contrib_def)
  next
    case (Suc m')
    with Cons.prems have m': "m' < length xs" "pt_id (xs ! m') = i" "distinct (map pt_id xs)"
      by auto
    then have "i \<in> pt_id ` set xs" by (metis image_eqI nth_mem)
    with Cons.prems(1) have "pt_id x \<noteq> i" by auto
    moreover from Cons.IH [OF m'(3) m'(1) m'(2), of "Suc n"]
    have "contrib k (enumerate (Suc n) xs) i = 1 / (k + real (Suc n + m'))" .
    ultimately show ?thesis using Suc by (simp add: contrib_def)
  qed
qed

lemma contrib_rank:
  assumes "distinct (map pt_id xs)" "1 \<le> r" "r \<le> length xs" "pt_id (xs ! (r - 1)) = i"
  shows "contrib k (enumerate 1 xs) i = 1 / (k + real r)"
proof -
  from assms have "r - 1 < length xs" by simp
  from contrib_at [OF assms(1) this assms(4), of k 1] assms(2) show ?thesis by simp
qed

lemma ranks_nonzero: "0 \<le> k \<Longrightarrow> \<forall>rp\<in>set (enumerate 1 xs). k + real (fst rp) \<noteq> 0"
proof
  fix rp assume "0 \<le> k" "rp \<in> set (enumerate 1 xs)"
  then have "1 \<le> fst rp" by (simp add: in_set_enumerate_eq)
  with \<open>0 \<le> k\<close> show "k + real (fst rp) \<noteq> 0" by simp
qed

lemma keyed_Nil: "keyed []"
  by (simp add: keyed_def)

lemma rrf_fused_scores_ok:
  assumes "0 \<le> k"
  shows "\<exists>fused. rrf_fused_scores dense sparse k = Inr fused \<and>
           (\<forall>i. score_of fused i =
                  contrib k (enumerate 1 dense) i + contrib k (enumerate 1 sparse) i) \<and>
           keyed fused \<and> fst ` set fused = pt_id ` set dense \<union> pt_id ` set sparse"
proof -
  from rrf_loop_good [OF good_dense_step ranks_nonzero [OF assms], of dense "[]"]
  obtain f1 where f1: "rrf_loop (dense_step k) (enumerate 1 dense) [] = Inr f1"
    "\<And>i. score_of f1 i = contrib k (enumerate 1 dense) i" "keyed f1"
    "fst ` set f1 = pt_id ` set dense"
    by (auto simp: score_of_def keyed_Nil simp flip: set_map)
  from rrf_loop_good [OF good_sparse_step ranks_nonzero [OF assms], of sparse f1]
  obtain f2 where f2: "rrf_loop (sparse_step k) (enumerate 1 sparse) f1 = Inr f2"
    "\<And>i. score_of f2 i = score_of f1 i + contrib k (enumerate 1 sparse) i" "keyed f2"
    "fst ` set f2 = fst ` set f1 \<union> pt_id ` set sparse"
    using f1(3) by (auto simp flip: set_map)
  have "rrf_fused_scores dense sparse k = Inr f2"
    by (simp only: rrf_fused_scores_def f1(1) f2(1) sum.case)
  with f2 f1 show ?thesis by auto
qed

lemma entry_of_key:
  assumes "fst ` set fused = A" "i \<in> A"
  shows "\<exists>e. map_of fused i = Some e \<and> rrf_score e = score_of fused i"
proof -
  from assms have "map_of fused i \<noteq> None" by (simp add: map_of_eq_None_iff)
  then show ?thesis by (auto simp: score_of_def)
qed

lemma set_slice_to: "set (slice_to n xs) \<subseteq> set xs"
  by (auto simp: slice_to_def dest: in_set_takeD)

lemma rrf_output_score:
  assumes "keyed fused" "map_of fused i = Some e"
    and "p \<in> set (map (\<lambda>item. (entry_point item)\<lparr>pt_score := rrf_score item\<rparr>)
                 (slice_to limit (sort_key (\<lambda>item. - rrf_score item) (map snd fused))))"
    and "pt_id p = i"
  shows "pt_score p = rrf_score e"
proof -
  from assms(3) obtain item where item: "p = (entry_point item)\<lparr>pt_score := rrf_score item\<rparr>"
    "item \<in> set (slice_to limit (sort_key (\<lambda>item. - rrf_score item) (map snd fused)))"
    by auto
  from item(2) set_slice_to have "item \<in> set (map snd fused)" by fastforce
  then obtain j where j: "(j, item) \<in> set fused" by auto
  from assms(1) have d: "distinct (map fst fused)" by (simp add: keyed_def)
  from j d have m: "map_of fused j = Some item" by simp
  with assms(1) have "pt_id (entry_point item) = j" by (simp add: keyed_def)
  with item(1) assms(4) have "j = i" by simp
  with m assms(2) have "item = e" by simp
  with item(1) show ?thesis by simp
qed

lemma keyed_length:
  assumes "keyed fused" "fst ` set fused = pt_id ` set dense \<union> pt_id ` set sparse"
  shows "length fused \<le> length dense + length sparse"
proof -
  from assms(1) have "distinct (map fst fused)" by (simp add: keyed_def)
  from distinct_card [OF this] have "length fused = card (set (map fst fused))" by simp
  also have "\<dots> = card (pt_id ` set dense \<union> pt_id ` set sparse)" using assms(2) by simp
  also have "\<dots> \<le> card (pt_id ` set dense) + card (pt_id ` set sparse)" by (rule card_Un_le)
  also have "\<dots> \<le> card (set dense) + card (set sparse)"
    by (intro add_mono card_image_le) simp_all
  also have "\<dots> \<le> length dense + length sparse"
    by (intro add_mono card_length)
  finally show ?thesis .
qed

lemma slice_to_all: "int (length xs) \<le> n \<Longrightarrow> slice_to n xs = xs"
  by (simp add: slice_to_def)

lemma rrf_output_member:
  assumes "keyed fused" "map_of fused i = Some e" "int (length fused) \<le> limit"
  shows "\<exists>p\<in>set (map (\<lambda>item. (entry_point item)\<lparr>pt_score := rrf_score item\<rparr>)
                 (slice_to limit (sort_key (\<lambda>item. - rrf_score item) (map snd fused)))).
           pt_id p = i \<and> pt_score p = rrf_score e"
proof -
  have "slice_to limit (sort_key (\<lambda>item. - rrf_score item) (map snd fused)) =
          sort_key (\<lambda>item. - rrf_score item) (map snd fused)"
    using assms(3) by (intro slice_to_all) simp
  moreover from assms(2) have "(i, e) \<in> set fused" by (rule map_of_SomeD)
  then have "e \<in> set (sort_key (\<lambda>item. - rrf_score item) (map snd fused))" by force
  moreover from assms(1,2) have "pt_id (entry_point e) = i" by (simp add: keyed_def)
  ultimately show ?thesis by force
qed

text \<open>
  What a run of \<^verbatim>\<open>reciprocal_rank_fusion\<close> returns for an id the dictionary holds:
  every returned point with that id carries the entry's score, and when \<open>limit\<close> covers
  the dictionary such a point is returned.
\<close>

lemma rrf_returned:
  assumes "rrf_fused_scores dense sparse k = Inr fused" "keyed fused" "map_of fused i = Some e"
  shows "\<exists>out. reciprocal_rank_fusion dense sparse k limit = Inr out \<and>
           (\<forall>p\<in>set out. pt_id p = i \<longrightarrow> pt_score p = rrf_score e) \<and>
           (int (length fused) \<le> limit \<longrightarrow>
              (\<exists>p\<in>set out. pt_id p = i \<and> pt_score p = rrf_score e))"
proof -
  have out: "reciprocal_rank_fusion dense sparse k limit =
          Inr (map (\<lambda>item. (entry_point item)\<lparr>pt_score := rrf_score item\<rparr>)
               (slice_to limit (sort_key (\<lambda>item. - rrf_score item) (map snd fused))))"
    by (simp add: reciprocal_rank_fusion_def assms(1))
  show ?thesis
    unfolding out
    using rrf_output_score [OF assms(2,3)] rrf_output_member [OF assms(2,3)]
    by blast
qed

lemma rrf_run:
  assumes k: "0 \<le> k" and i: "i \<in> pt_id ` set dense \<union> pt_id ` set sparse"
  shows "\<exists>fused e. rrf_fused_scores dense sparse k = Inr fused \<and> map_of fused i = Some e \<and>
           rrf_score e = contrib k (enumerate 1 dense) i + contrib k (enumerate 1 sparse) i \<and>
           length fused \<le> length dense + length sparse \<and>
           (\<forall>limit. \<exists>out. reciprocal_rank_fusion dense sparse k limit = Inr out \<and>
              (\<forall>p\<in>set out. pt_id p = i \<longrightarrow> pt_score p = rrf_score e) \<and>
              (int (length fused) \<le> limit \<longrightarrow>
                 (\<exists>p\<in>set out. pt_id p = i \<and> pt_score p = rrf_score e)))"
proof -
  from rrf_fused_scores_ok [OF k, of dense sparse]
  obtain fused where fused: "rrf_fused_scores dense sparse k = Inr fused"
    "\<And>j. score_of fused j = contrib k (enumerate 1 dense) j + contrib k (enumerate 1 sparse) j"
    "keyed fused" "fst ` set fused = pt_id ` set dense \<union> pt_id ` set sparse"
    by blast
  from entry_of_key [OF fused(4) i]
  obtain e where e: "map_of fused i = Some e" "rrf_score e = score_of fused i" by auto
  have sc: "rrf_score e = contrib k (enumerate 1 dense) i + contrib k (enumerate 1 sparse) i"
    by (simp only: e(2) fused(2))
  have len: "length fused \<le> length dense + length sparse"
    by (rule keyed_length [OF fused(3,4)])
  have out: "\<forall>limit. \<exists>out. reciprocal_rank_fusion dense sparse k limit = Inr out \<and>
              (\<forall>p\<in>set out. pt_id p = i \<longrightarrow> pt_score p = rrf_score e) \<and>
              (int (length fused) \<le> limit \<longrightarrow>
                 (\<exists>p\<in>set out. pt_id p = i \<and> pt_score p = rrf_score e))"
    using rrf_returned [OF fused(1) fused(3) e(1)] by blast
  from fused(1) e(1) sc len out show ?thesis by blast
qed

lemma rank_in_list:
  assumes "1 \<le> r" "r \<le> length xs" "pt_id (xs ! (r - 1)) = i"
  shows "i \<in> pt_id ` set xs"
proof -
  from assms(1,2) have "r - 1 < length xs" by simp
  then have "xs ! (r - 1) \<in> set xs" by (rule nth_mem)
  with assms(3) show ?thesis by (metis image_eqI)
qed

text \<open>
  Claim C5. With a smoothing constant \<open>k \<ge> 0\<close> and result lists that hold each point id
  once, an id at the 1-indexed rank \<open>rd\<close> of the dense list and at rank \<open>rs\<close> of the sparse
  list gets the fused score \<open>1/(k+rd) + 1/(k+rs)\<close>. Every point with that id in the list
  \<^verbatim>\<open>reciprocal_rank_fusion\<close> returns carries that score, and such a point is returned
  whenever \<open>limit\<close> covers the fused ids (there are at most as many as the two lists
  have points). The score is strictly greater than the score \<open>1/(k+rd)\<close> the id gets, in
  the dictionary and in the returned list, when the sparse list does not hold it, and
  than the score \<open>1/(k+rs)\<close> it gets when the dense list does not hold it.
\<close>

theorem rrf_consensus:
  assumes k: "0 \<le> k"
    and dd: "distinct (map pt_id dense)" and ds: "distinct (map pt_id sparse)"
    and rd: "1 \<le> rd" "rd \<le> length dense" "pt_id (dense ! (rd - 1)) = i"
    and rs: "1 \<le> rs" "rs \<le> length sparse" "pt_id (sparse ! (rs - 1)) = i"
  shows "\<exists>fused e. rrf_fused_scores dense sparse k = Inr fused \<and> map_of fused i = Some e \<and>
           rrf_score e = 1 / (k + real rd) + 1 / (k + real rs) \<and>
           length fused \<le> length dense + length sparse \<and>
           (\<forall>limit. \<exists>out. reciprocal_rank_fusion dense sparse k limit = Inr out \<and>
              (\<forall>p\<in>set out. pt_id p = i \<longrightarrow> pt_score p = rrf_score e) \<and>
              (int (length fused) \<le> limit \<longrightarrow>
                 (\<exists>p\<in>set out. pt_id p = i \<and> pt_score p = rrf_score e))) \<and>
           (\<forall>sparse'. i \<notin> pt_id ` set sparse' \<longrightarrow>
              (\<exists>fused' e'. rrf_fused_scores dense sparse' k = Inr fused' \<and>
                 map_of fused' i = Some e' \<and> rrf_score e' = 1 / (k + real rd) \<and>
                 rrf_score e' < rrf_score e \<and>
                 length fused' \<le> length dense + length sparse' \<and>
                 (\<forall>limit. \<exists>out'. reciprocal_rank_fusion dense sparse' k limit = Inr out' \<and>
                    (\<forall>p\<in>set out'. pt_id p = i \<longrightarrow> pt_score p = rrf_score e') \<and>
                    (int (length fused') \<le> limit \<longrightarrow>
                       (\<exists>p\<in>set out'. pt_id p = i \<and> pt_score p = rrf_score e'))))) \<and>
           (\<forall>dense'. i \<notin> pt_id ` set dense' \<longrightarrow>
              (\<exists>fused' e'. rrf_fused_scores dense' sparse k = Inr fused' \<and>
                 map_of fused' i = Some e' \<and> rrf_score e' = 1 / (k + real rs) \<and>
                 rrf_score e' < rrf_score e \<and>
                 length fused' \<le> length dense' + length sparse \<and>
                 (\<forall>limit. \<exists>out'. reciprocal_rank_fusion dense' sparse k limit = Inr out' \<and>
                    (\<forall>p\<in>set out'. pt_id p = i \<longrightarrow> pt_score p = rrf_score e') \<and>
                    (int (length fused') \<le> limit \<longrightarrow>
                       (\<exists>p\<in>set out'. pt_id p = i \<and> pt_score p = rrf_score e')))))"
proof -
  have cd: "contrib k (enumerate 1 dense) i = 1 / (k + real rd)"
    by (rule contrib_rank [OF dd rd])
  have cs: "contrib k (enumerate 1 sparse) i = 1 / (k + real rs)"
    by (rule contrib_rank [OF ds rs])
  have pd: "0 < 1 / (k + real rd)" and ps: "0 < 1 / (k + real rs)"
    using k rd(1) rs(1) by simp_all
  have i_dense: "i \<in> pt_id ` set dense" by (rule rank_in_list [OF rd])
  have i_sparse: "i \<in> pt_id ` set sparse" by (rule rank_in_list [OF rs])
  from i_dense have "i \<in> pt_id ` set dense \<union> pt_id ` set sparse" by simp
  from rrf_run [OF k this]
  obtain fused e where both: "rrf_fused_scores dense sparse k = Inr fused"
    "map_of fused i = Some e"
    "rrf_score e = contrib k (enumerate 1 dense) i + contrib k (enumerate 1 sparse) i"
    "length fused \<le> length dense + length sparse"
    "\<forall>limit. \<exists>out. reciprocal_rank_fusion dense sparse k limit = Inr out \<and>
              (\<forall>p\<in>set out. pt_id p = i \<longrightarrow> pt_score p = rrf_score e) \<and>
              (int (length fused) \<le> limit \<longrightarrow>
                 (\<exists>p\<in>set out. pt_id p = i \<and> pt_score p = rrf_score e))"
    by blast
  have sc: "rrf_score e = 1 / (k + real rd) + 1 / (k + real rs)"
    by (simp only: both(3) cd cs)
  have only_dense: "\<forall>sparse'. i \<notin> pt_id ` set sparse' \<longrightarrow>
              (\<exists>fused' e'. rrf_fused_scores dense sparse' k = Inr fused' \<and>
                 map_of fused' i = Some e' \<and> rrf_score e' = 1 / (k + real rd) \<and>
                 rrf_score e' < rrf_score e \<and>
                 length fused' \<le> length dense + length sparse' \<and>
                 (\<forall>limit. \<exists>out'. reciprocal_rank_fusion dense sparse' k limit = Inr out' \<and>
                    (\<forall>p\<in>set out'. pt_id p = i \<longrightarrow> pt_score p = rrf_score e') \<and>
                    (int (length fused') \<le> limit \<longrightarrow>
                       (\<exists>p\<in>set out'. pt_id p = i \<and> pt_score p = rrf_score e'))))"
  proof (intro allI impI)
    fix sparse' :: "point list" assume absent: "i \<notin> pt_id ` set sparse'"
    from i_dense have "i \<in> pt_id ` set dense \<union> pt_id ` set sparse'" by simp
    from rrf_run [OF k this]
    obtain f' e' where one: "rrf_fused_scores dense sparse' k = Inr f'"
      "map_of f' i = Some e'"
      "rrf_score e' = contrib k (enumerate 1 dense) i + contrib k (enumerate 1 sparse') i"
      "length f' \<le> length dense + length sparse'"
      "\<forall>limit. \<exists>out'. reciprocal_rank_fusion dense sparse' k limit = Inr out' \<and>
              (\<forall>p\<in>set out'. pt_id p = i \<longrightarrow> pt_score p = rrf_score e') \<and>
              (int (length f') \<le> limit \<longrightarrow>
                 (\<exists>p\<in>set out'. pt_id p = i \<and> pt_score p = rrf_score e'))"
      by blast
    have "contrib k (enumerate 1 sparse') i = 0" by (rule contrib_absent [OF absent])
    then have v: "rrf_score e' = 1 / (k + real rd)"
      by (simp only: one(3) cd add_0_right)
    with sc ps have lt: "rrf_score e' < rrf_score e" by simp
    from one(1,2) v lt one(4,5)
    show "\<exists>fused' e'. rrf_fused_scores dense sparse' k = Inr fused' \<and>
                 map_of fused' i = Some e' \<and> rrf_score e' = 1 / (k + real rd) \<and>
                 rrf_score e' < rrf_score e \<and>
                 length fused' \<le> length dense + length sparse' \<and>
                 (\<forall>limit. \<exists>out'. reciprocal_rank_fusion dense sparse' k limit = Inr out' \<and>
                    (\<forall>p\<in>set out'. pt_id p = i \<longrightarrow> pt_score p = rrf_score e') \<and>
                    (int (length fused') \<le> limit \<longrightarrow>
                       (\<exists>p\<in>set out'. pt_id p = i \<and> pt_score p = rrf_score e')))"
      by blast
  qed
  have only_sparse: "\<forall>dense'. i \<notin> pt_id ` set dense' \<longrightarrow>
              (\<exists>fused' e'. rrf_fused_scores dense' sparse k = Inr fused' \<and>
                 map_of fused' i = Some e' \<and> rrf_score e' = 1 / (k + real rs) \<and>
                 rrf_score e' < rrf_score e \<and>
                 length fused' \<le> length dense' + length sparse \<and>
                 (\<forall>limit. \<exists>out'. reciprocal_rank_fusion dense' sparse k limit = Inr out' \<and>
                    (\<forall>p\<in>set out'. pt_id p = i \<longrightarrow> pt_score p = rrf_score e') \<and>
                    (int (length fused') \<le> limit \<longrightarrow>
                       (\<exists>p\<in>set out'. pt_id p = i \<and> pt_score p = rrf_score e'))))"
  proof (intro allI impI)
    fix dense' :: "point list" assume absent: "i \<notin> pt_id ` set dense'"
    from i_sparse have "i \<in> pt_id ` set dense' \<union> pt_id ` set sparse" by simp
    from rrf_run [OF k this]
    obtain f' e' where one: "rrf_fused_scores dense' sparse k = Inr f'"
      "map_of f' i = Some e'"
      "rrf_score e' = contrib k (enumerate 1 dense') i + contrib k (enumerate 1 sparse) i"
      "length f' \<le> length dense' + length sparse"
      "\<forall>limit. \<exists>out'. reciprocal_rank_fusion dense' sparse k limit = Inr out' \<and>
              (\<forall>p\<in>set out'. pt_id p = i \<longrightarrow> pt_score p = rrf_score e') \<and>
              (int (length f') \<le> limit \<longrightarrow>
                 (\<exists>p\<in>set out'. pt_id p = i \<and> pt_score p = rrf_score e'))"
      by blast
    have "contrib k (enumerate 1 dense') i = 0" by (rule contrib_absent [OF absent])
    then have v: "rrf_score e' = 1 / (k + real rs)"
      by (simp only: one(3) cs add_0)
    with sc pd have lt: "rrf_score e' < rrf_score e" by simp
    from one(1,2) v lt one(4,5)
    show "\<exists>fused' e'. rrf_fused_scores dense' sparse k = Inr fused' \<and>
                 map_of fused' i = Some e' \<and> rrf_score e' = 1 / (k + real rs) \<and>
                 rrf_score e' < rrf_score e \<and>
                 length fused' \<le> length dense' + length sparse \<and>
                 (\<forall>limit. \<exists>out'. reciprocal_rank_fusion dense' sparse k limit = Inr out' \<and>
                    (\<forall>p\<in>set out'. pt_id p = i \<longrightarrow> pt_score p = rrf_score e') \<and>
                    (int (length fused') \<le> limit \<longrightarrow>
                       (\<exists>p\<in>set out'. pt_id p = i \<and> pt_score p = rrf_score e')))"
      by blast
  qed
  from both(1,2) sc both(4,5) only_dense only_sparse show ?thesis by blast
qed

theorem rrf_consensus_witness:
  "(0::real) \<le> 60 \<and> distinct (map pt_id example_points) \<and> distinct (map pt_id example_sparse) \<and>
   (1::nat) \<le> 2 \<and> 2 \<le> length example_points \<and> pt_id (example_points ! (2 - 1)) = ''8'' \<and>
   (1::nat) \<le> 1 \<and> 1 \<le> length example_sparse \<and> pt_id (example_sparse ! (1 - 1)) = ''8'' \<and>
   (\<exists>fused e. rrf_fused_scores example_points example_sparse 60 = Inr fused \<and>
      map_of fused ''8'' = Some e \<and> rrf_score e = 123 / 3782) \<and>
   (\<exists>out. reciprocal_rank_fusion example_points example_sparse 60 10 = Inr out \<and>
      (\<exists>p\<in>set out. pt_id p = ''8'' \<and> pt_score p = 123 / 3782))"
proof -
  have k: "(0::real) \<le> 60" by simp
  have dd: "distinct (map pt_id example_points)"
    by (simp add: example_points_def example_point_def)
  have ds: "distinct (map pt_id example_sparse)"
    by (simp add: example_sparse_def example_point_def)
  have rd: "(1::nat) \<le> 2" "2 \<le> length example_points" "pt_id (example_points ! (2 - 1)) = ''8''"
    by (simp_all add: example_points_def example_point_def)
  have rs: "(1::nat) \<le> 1" "1 \<le> length example_sparse" "pt_id (example_sparse ! (1 - 1)) = ''8''"
    by (simp_all add: example_sparse_def example_point_def)
  have v: "1 / (60 + real 2) + 1 / (60 + real 1) = (123 / 3782 :: real)" by simp
  have n: "length example_points + length example_sparse = 5"
    by (simp add: example_points_def example_sparse_def)
  from rrf_consensus [OF k dd ds rd rs]
  obtain fused e where f: "rrf_fused_scores example_points example_sparse 60 = Inr fused"
    "map_of fused ''8'' = Some e" "rrf_score e = 1 / (60 + real 2) + 1 / (60 + real 1)"
    "length fused \<le> length example_points + length example_sparse"
    "\<forall>limit. \<exists>out. reciprocal_rank_fusion example_points example_sparse 60 limit = Inr out \<and>
       (\<forall>p\<in>set out. pt_id p = ''8'' \<longrightarrow> pt_score p = rrf_score e) \<and>
       (int (length fused) \<le> limit \<longrightarrow>
          (\<exists>p\<in>set out. pt_id p = ''8'' \<and> pt_score p = rrf_score e))"
    by blast
  from f(3) v have sc: "rrf_score e = 123 / 3782" by simp
  from f(4) n have "int (length fused) \<le> 10" by simp
  with f(5) sc
  have out: "\<exists>out. reciprocal_rank_fusion example_points example_sparse 60 10 = Inr out \<and>
      (\<exists>p\<in>set out. pt_id p = ''8'' \<and> pt_score p = 123 / 3782)"
    by metis
  from f(1,2) sc have "\<exists>fused e. rrf_fused_scores example_points example_sparse 60 = Inr fused \<and>
      map_of fused ''8'' = Some e \<and> rrf_score e = 123 / 3782" by blast
  with k dd ds rd rs out show ?thesis by blast
qed

section \<open>Classifier: boundary cases\<close>

lemma not_part_number_empty: "\<not> is_part_number ''''"
  by (simp add: is_part_number_def)

lemma not_part_number_abc: "\<not> is_part_number ''abc''"
  by code_simp

lemma part_number_rad: "is_part_number ''RAD64002019''"
  by code_simp

lemma not_part_number_question: "\<not> is_part_number ''how much is the best torch''"
  by code_simp

text \<open>
  Claim C9. The classifier returns false for the empty string and for \<^verbatim>\<open>"abc"\<close>,
  true for \<^verbatim>\<open>"RAD64002019"\<close>, and false for
  \<^verbatim>\<open>"how much is the best torch"\<close>.
\<close>

theorem classifier_boundary_cases:
  "\<not> is_part_number '''' \<and> \<not> is_part_number ''abc'' \<and> is_part_number ''RAD64002019'' \<and>
   \<not> is_part_number ''how much is the best torch''"
  using not_part_number_empty not_part_number_abc part_number_rad not_part_number_question
  by blast

section \<open>Classifier: the explain variant agrees\<close>

text \<open>
  Both functions are brought to the same form: the score is the sum of one term per
  rule, and the explanation is the concatenation of one list per rule.
\<close>

lemma if_pair: "(if c then (a, b) else (a', b')) = (if c then a else a', if c then b else b')"
  by simp

lemma if_pair3:
  "(if c then (a, b) else if c' then (a', b') else (a'', b'')) =
   (if c then a else if c' then a' else a'', if c then b else if c' then b' else b'')"
  by simp

lemma score_add: "(if c then s + a else s) = s + (if c then a else (0::int))"
  by simp

lemma score_sub: "(if c then s - a else s) = s - (if c then a else (0::int))"
  by simp

lemma score_add3:
  "(if c then s + a else if c' then s + b else s) = s + (if c then a else if c' then b else (0::int))"
  by simp

lemma score_sub3:
  "(if c then s - a else if c' then s - b else s) = s - (if c then a else if c' then b else (0::int))"
  by simp

lemma expl_app: "(if c then e @ [m] else e) = e @ (if c then [m] else [])"
  by simp

lemma expl_app3:
  "(if c then e @ [m] else if c' then e @ [m'] else e) =
   e @ (if c then [m] else if c' then [m'] else [])"
  by simp

lemma rejected_is_part_number: "cl_is_part_number (rejected why) = False"
  by (simp add: rejected_def)

text \<open>
  Claim C10. For every query string, \<^verbatim>\<open>is_part_number(query)\<close> equals the
  \<^verbatim>\<open>is_part_number\<close> entry of \<^verbatim>\<open>explain_classification(query)\<close>: the two
  copies of the rules reach the same decision.
\<close>

theorem explain_agrees:
  "is_part_number query = cl_is_part_number (explain_classification query)"
proof (cases "query = [] \<or> strip query = []")
  case True
  then show ?thesis
    by (simp add: is_part_number_def explain_classification_def rejected_is_part_number Let_def)
next
  case g0: False
  show ?thesis
  proof (cases "\<not> re_search re_digit False (strip query)")
    case True
    with g0 show ?thesis
      by (simp add: is_part_number_def explain_classification_def rejected_is_part_number Let_def)
  next
    case g1: False
    show ?thesis
    proof (cases "length (strip query) < 4")
      case True
      with g0 g1 show ?thesis
        by (simp add: is_part_number_def explain_classification_def rejected_is_part_number
            Let_def)
    next
      case g2: False
      show ?thesis
      proof (cases "length (split (strip query)) > 2 \<and>
                    list_ex (\<lambda>term. contains term (lower (strip query))) search_terms")
        case True
        with g0 g1 g2 show ?thesis
          by (simp add: is_part_number_def explain_classification_def rejected_is_part_number
              Let_def)
      next
        case g3: False
        show ?thesis
        proof (cases "re_match re_doc_ref_start True (strip query)")
          case True
          with g0 g1 g2 g3 show ?thesis
            by (simp add: is_part_number_def explain_classification_def
                rejected_is_part_number Let_def)
        next
          case g4: False
          from g3 have g3': "(length (split (strip query)) > 2 \<and>
                    list_ex (\<lambda>term. contains term (lower (strip query))) search_terms) = False"
            by simp
          from g0 g1 g2 g4 show ?thesis
            by (simp add: g3' is_part_number_def explain_classification_def Let_def
                if_pair if_pair3 score_add score_sub score_add3 score_sub3 expl_app expl_app3
                split del: if_split)
        qed
      qed
    qed
  qed
qed

end
